(* ===== verification/Prelude.thy ===== *)
theory Prelude
  imports Main "HOL-Library.Word"
begin

text \<open>
  Shared vocabulary of the development: machine-integer types, the outcome of a Go call that
  may panic, the lemma collections the component theories feed, and generic facts on lists
  that several components use.
\<close>

section \<open>Types shared by the components\<close>

type_synonym u8 = "8 word"
type_synonym u16 = "16 word"
type_synonym u32 = "32 word"
type_synonym i64 = "64 word"

text \<open>A Go \<^verbatim>\<open>error\<close> is its message; \<^verbatim>\<open>nil\<close> is \<open>None\<close> in \<open>goerror option\<close>.\<close>

type_synonym goerror = string

text \<open>
  A Go call either panics (nil dereference, index out of range) or returns a value. Calls that
  may in addition run forever have type \<open>'a outcome option\<close>, with \<open>None\<close> for a call that
  never returns.
\<close>

datatype 'a outcome = Panic | Return 'a

primrec bind_outcome :: "'a outcome \<Rightarrow> ('a \<Rightarrow> 'b outcome) \<Rightarrow> 'b outcome" where
  "bind_outcome Panic f = Panic"
| "bind_outcome (Return x) f = f x"

lemma bind_outcome_Return_iff:
  "bind_outcome m f = Return y \<longleftrightarrow> (\<exists>x. m = Return x \<and> f x = Return y)"
  by (cases m) auto

section \<open>Lemma collections\<close>

named_theorems str_simps \<open>rewrite rules for the Go string functions\<close>

section \<open>Generic list facts\<close>

lemma dropWhile_idem: "dropWhile P (dropWhile P xs) = dropWhile P xs"
  by (induction xs) auto

lemma dropWhile_map_inv:
  "(\<And>x. P (f x) = P x) \<Longrightarrow> dropWhile P (map f xs) = map f (dropWhile P xs)"
  by (induction xs) auto

lemma dropWhile_append_stop:
  "\<not> P y \<Longrightarrow> dropWhile P (xs @ y # ys) = dropWhile P (xs @ [y]) @ ys"
  by (induction xs) auto

lemma dropWhile_fixed_iff: "dropWhile P xs = xs \<longleftrightarrow> xs = [] \<or> \<not> P (hd xs)"
proof (cases xs)
  case (Cons x ys)
  have "dropWhile P ys \<noteq> x # ys"
    by (metis length_Cons length_dropWhile_le not_less_eq_eq order_refl)
  with Cons show ?thesis by auto
qed simp

lemma takeWhile_eq_self_iff: "takeWhile P xs = xs \<longleftrightarrow> (\<forall>x \<in> set xs. P x)"
  by (induction xs) auto

lemma replicate_numeral_eval: "replicate (numeral k) x = x # replicate (pred_numeral k) x"
  by (simp add: numeral_eq_Suc)

section \<open>The first hit of an index loop\<close>

text \<open>\<open>first_hit f i n r\<close>: the least index from \<open>i\<close> below \<open>n\<close> where \<open>f\<close> has a value has value \<open>r\<close>.\<close>

definition first_hit :: "(nat \<Rightarrow> 'a option) \<Rightarrow> nat \<Rightarrow> nat \<Rightarrow> 'a \<Rightarrow> bool" where
  "first_hit f i n r \<longleftrightarrow>
     (\<exists>j. i \<le> j \<and> j < n \<and> f j = Some r \<and> (\<forall>k. i \<le> k \<and> k < j \<longrightarrow> f k = None))"

lemma first_hit_end: "\<not> i < n \<Longrightarrow> \<not> first_hit f i n r"
  by (auto simp: first_hit_def)

lemma first_hit_Some: "i < n \<Longrightarrow> f i = Some r' \<Longrightarrow> first_hit f i n r \<longleftrightarrow> r' = r"
  unfolding first_hit_def
  by (metis le_neq_implies_less le_refl not_less option.distinct(1) option.inject)

lemma first_hit_None: "f i = None \<Longrightarrow> first_hit f i n r \<longleftrightarrow> first_hit f (Suc i) n r"
  unfolding first_hit_def
  by (metis Suc_leD Suc_leI le_neq_implies_less option.distinct(1))

end
