(* ===== verification/GoStrings.thy ===== *)
theory GoStrings
  imports Prelude
begin

text \<open>
  The functions of Go's \<^verbatim>\<open>strings\<close> and \<^verbatim>\<open>strconv\<close> packages that the program calls.
  A Go string is its bytes (\<open>string\<close> is a list of 8-bit characters). Case mapping and white
  space follow the ASCII path of the library; bytes from 128 up are left alone, so the model is
  exact on ASCII text, which is what DNS query names are (other bytes arrive escaped).
\<close>

section \<open>Case and white space\<close>

definition is_upper :: "char \<Rightarrow> bool" where
  "is_upper c \<longleftrightarrow> (65::nat) \<le> of_char c \<and> of_char c \<le> (90::nat)"

definition lowerc :: "char \<Rightarrow> char" where
  "lowerc c = (if is_upper c then char_of (of_char c + (32::nat)) else c)"

definition ToLower :: "string \<Rightarrow> string" where
  "ToLower s = map lowerc s"

definition is_space :: "char \<Rightarrow> bool" where
  "is_space c \<longleftrightarrow> c = CHR '' '' \<or> ((9::nat) \<le> of_char c \<and> of_char c \<le> (13::nat))"

definition TrimSpace :: "string \<Rightarrow> string" where
  "TrimSpace s = rev (dropWhile is_space (rev (dropWhile is_space s)))"

section \<open>Prefixes, suffixes, substrings\<close>

definition HasPrefix :: "string \<Rightarrow> string \<Rightarrow> bool" where
  "HasPrefix s p \<longleftrightarrow> take (length p) s = p"

definition HasSuffix :: "string \<Rightarrow> string \<Rightarrow> bool" where
  "HasSuffix s p \<longleftrightarrow> length p \<le> length s \<and> drop (length s - length p) s = p"

definition TrimPrefix :: "string \<Rightarrow> string \<Rightarrow> string" where
  "TrimPrefix s p = (if HasPrefix s p then drop (length p) s else s)"

definition TrimSuffix :: "string \<Rightarrow> string \<Rightarrow> string" where
  "TrimSuffix s p = (if HasSuffix s p then take (length s - length p) s else s)"

fun Contains :: "string \<Rightarrow> string \<Rightarrow> bool" where
  "Contains [] sub = (sub = [])"
| "Contains (c # s) sub = (HasPrefix (c # s) sub \<or> Contains s sub)"

section \<open>Splitting and joining\<close>

text \<open>\<^verbatim>\<open>strings.Split(s, sep)\<close> for a one-byte separator, the only kind the program uses.\<close>

fun Split :: "string \<Rightarrow> char \<Rightarrow> string list" where
  "Split [] c = [[]]"
| "Split (x # xs) c =
     (if x = c then [] # Split xs c
      else (case Split xs c of [] \<Rightarrow> [[x]] | y # ys \<Rightarrow> (x # y) # ys))"

fun Join :: "string list \<Rightarrow> string \<Rightarrow> string" where
  "Join [] sep = []"
| "Join [p] sep = p"
| "Join (p # q # ps) sep = p @ sep @ Join (q # ps) sep"

text \<open>\<^verbatim>\<open>strings.Fields\<close>: the maximal runs of bytes that are not white space.\<close>

fun fields_acc :: "string \<Rightarrow> string \<Rightarrow> string list" where
  "fields_acc cur [] = (if cur = [] then [] else [cur])"
| "fields_acc cur (c # s) =
     (if is_space c then (if cur = [] then fields_acc [] s else cur # fields_acc [] s)
      else fields_acc (cur @ [c]) s)"

definition Fields :: "string \<Rightarrow> string list" where
  "Fields s = fields_acc [] s"

section \<open>Decimal numbers\<close>

definition digit_char :: "nat \<Rightarrow> char" where
  "digit_char d = char_of (48 + d)"

fun Itoa :: "nat \<Rightarrow> string" where
  "Itoa n = (if n < 10 then [digit_char n] else Itoa (n div 10) @ [digit_char (n mod 10)])"

declare Itoa.simps [simp del]

section \<open>Lemmas\<close>

subsection \<open>Case and white space\<close>

lemma of_char_less_256: "of_char c < (256::nat)"
  using nat_of_char_less_256 by simp

lemma of_char_lowerc:
  "of_char (lowerc c) = (if is_upper c then of_char c + (32::nat) else of_char c)"
  by (simp add: lowerc_def is_upper_def)

lemma not_is_upper_lowerc [simp]: "\<not> is_upper (lowerc c)"
  by (simp add: is_upper_def [of "lowerc c"] of_char_lowerc) (simp add: is_upper_def)

lemma lowerc_idem [simp]: "lowerc (lowerc c) = lowerc c"
  by (simp add: lowerc_def [of "lowerc c"])

lemma is_space_of_char: "is_space c \<longleftrightarrow> of_char c = (32::nat) \<or> ((9::nat) \<le> of_char c \<and> of_char c \<le> (13::nat))"
proof -
  have "c = CHR '' '' \<longleftrightarrow> of_char c = (of_char CHR '' '' :: nat)"
    by (simp only: of_char_eq_iff)
  then show ?thesis by (simp add: is_space_def)
qed

lemma is_space_lowerc [simp]: "is_space (lowerc c) = is_space c"
  by (auto simp: is_space_of_char of_char_lowerc is_upper_def)

lemma ToLower_idem [simp]: "ToLower (ToLower s) = ToLower s"
  by (simp add: ToLower_def)

lemma ToLower_Nil_iff [simp]: "ToLower s = [] \<longleftrightarrow> s = []"
  by (simp add: ToLower_def)

lemma ToLower_append [simp]: "ToLower (s @ t) = ToLower s @ ToLower t"
  by (simp add: ToLower_def)

lemma length_ToLower [simp]: "length (ToLower s) = length s"
  by (simp add: ToLower_def)

lemma TrimSpace_ToLower: "TrimSpace (ToLower s) = ToLower (TrimSpace s)"
  by (simp add: TrimSpace_def ToLower_def dropWhile_map_inv rev_map)

lemma TrimSpace_Nil [simp]: "TrimSpace [] = []"
  by (simp add: TrimSpace_def)

lemma TrimSpace_eq_self_iff:
  "TrimSpace s = s \<longleftrightarrow> s = [] \<or> (\<not> is_space (hd s) \<and> \<not> is_space (last s))"
proof (cases s)
  case (Cons c t)
  show ?thesis
  proof (cases "is_space c")
    case True
    have "length (TrimSpace s) \<le> length (dropWhile is_space s)"
      by (simp add: TrimSpace_def) (metis length_dropWhile_le length_rev)
    also have "\<dots> < length s"
      using True Cons by (simp add: le_imp_less_Suc length_dropWhile_le)
    finally show ?thesis using True Cons by auto
  next
    case False
    then have "TrimSpace s = rev (dropWhile is_space (rev s))"
      by (simp add: TrimSpace_def Cons)
    then have "TrimSpace s = s \<longleftrightarrow> dropWhile is_space (rev s) = rev s"
      by (metis rev_rev_ident)
    then show ?thesis using False Cons by (auto simp: dropWhile_fixed_iff hd_rev)
  qed
qed simp

lemma hd_TrimSpace: "TrimSpace s \<noteq> [] \<Longrightarrow> \<not> is_space (hd (TrimSpace s))"
proof -
  assume ne: "TrimSpace s \<noteq> []"
  let ?d = "dropWhile is_space s"
  obtain w where w: "?d = TrimSpace s @ w"
    unfolding TrimSpace_def
    by (metis rev_append rev_rev_ident takeWhile_dropWhile_id)
  then have "?d \<noteq> []" and "hd ?d = hd (TrimSpace s)" using ne by auto
  then show ?thesis by (metis hd_dropWhile)
qed

lemma last_TrimSpace: "TrimSpace s \<noteq> [] \<Longrightarrow> \<not> is_space (last (TrimSpace s))"
  unfolding TrimSpace_def by (metis hd_dropWhile last_rev rev_is_Nil_conv)

lemma TrimSpace_idem [simp]: "TrimSpace (TrimSpace s) = TrimSpace s"
  using hd_TrimSpace last_TrimSpace by (auto simp: TrimSpace_eq_self_iff)

subsection \<open>Prefixes and suffixes\<close>

lemma HasPrefix_iff [str_simps]: "HasPrefix s p \<longleftrightarrow> (\<exists>t. s = p @ t)"
  unfolding HasPrefix_def by (metis append_eq_conv_conj append_take_drop_id)

lemma HasSuffix_iff [str_simps]: "HasSuffix s p \<longleftrightarrow> (\<exists>t. s = t @ p)"
proof
  assume "HasSuffix s p"
  then have "s = take (length s - length p) s @ p"
    unfolding HasSuffix_def by (metis append_take_drop_id)
  then show "\<exists>t. s = t @ p" ..
qed (auto simp: HasSuffix_def)

lemma HasSuffix_snoc [simp]: "HasSuffix (s @ [c]) [c]"
  by (auto simp: str_simps)

lemma HasSuffix_one_iff: "HasSuffix s [c] \<longleftrightarrow> s \<noteq> [] \<and> last s = c"
  by (cases s rule: rev_cases) (auto simp: str_simps)

lemma TrimSuffix_snoc [simp]: "TrimSuffix (s @ [c]) [c] = s"
  by (simp add: TrimSuffix_def)

lemma TrimPrefix_append [simp]: "TrimPrefix (p @ s) p = s"
  by (auto simp: TrimPrefix_def str_simps)

lemma Contains_iff: "Contains s sub \<longleftrightarrow> (\<exists>p q. s = p @ sub @ q)"
proof (induction s)
  case (Cons c s)
  have "(\<exists>p q. c # s = p @ sub @ q) \<longleftrightarrow>
      (\<exists>q. c # s = sub @ q) \<or> (\<exists>p q. s = p @ sub @ q)"
    by (metis (no_types, opaque_lifting) append_Cons append_Nil list.exhaust list.sel(3))
  with Cons show ?case by (simp add: str_simps)
qed simp

lemma Contains_char: "Contains s [c] \<longleftrightarrow> c \<in> set s"
  by (auto simp: Contains_iff in_set_conv_decomp)

subsection \<open>Splitting and joining\<close>

lemma Split_not_Nil [simp]: "Split s c \<noteq> []"
  by (induction s) (auto split: list.splits)

lemma length_Split_pos [simp]: "0 < length (Split s c)"
  by simp

lemma Split_Cons_other:
  "x \<noteq> c \<Longrightarrow> Split (x # xs) c = (x # hd (Split xs c)) # tl (Split xs c)"
  by (cases "Split xs c") (use Split_not_Nil [of xs c] in auto)

declare Split.simps(2) [simp del]

lemma Split_sep [simp]: "Split (c # xs) c = [] # Split xs c"
  by (simp add: Split.simps(2))

lemma Join_Cons: "ps \<noteq> [] \<Longrightarrow> Join (p # ps) sep = p @ sep @ Join ps sep"
  by (cases ps) auto

lemma Join_Split [simp]: "Join (Split s c) [c] = s"
proof (induction s)
  case (Cons x xs)
  show ?case
  proof (cases "x = c")
    case True
    with Cons show ?thesis by (simp add: Join_Cons)
  next
    case False
    obtain y ys where y: "Split xs c = y # ys"
      by (meson Split_not_Nil list.exhaust)
    with False Cons show ?thesis
      by (cases ys) (auto simp: Split_Cons_other)
  qed
qed simp

lemma Split_append_sep: "Split (p @ c # s) c = Split p c @ Split s c"
proof (induction p)
  case (Cons x p)
  then show ?case
    by (cases "x = c") (auto simp: Split_Cons_other)
qed simp

lemma Split_no_sep: "c \<notin> set s \<Longrightarrow> Split s c = [s]"
  by (induction s) (auto simp: Split_Cons_other)

text \<open>
  The suffixes a label loop visits: joining the parts from index \<open>i\<close> on, for \<open>1 \<le> i\<close>, gives
  exactly the strings that follow a separator.
\<close>

lemma Join_drop_Split_suffix:
  "1 \<le> i \<Longrightarrow> i < length (Split s c) \<Longrightarrow> \<exists>p. s = p @ c # Join (drop i (Split s c)) [c]"
proof (induction s arbitrary: i)
  case (Cons x xs)
  show ?case
  proof (cases "x = c")
    case True
    show ?thesis
    proof (cases "i = 1")
      case True
      with \<open>x = c\<close> show ?thesis by simp
    next
      case False
      with Cons.prems \<open>x = c\<close> have "1 \<le> i - 1" "i - 1 < length (Split xs c)" by auto
      from Cons.IH [OF this] obtain p where p: "xs = p @ c # Join (drop (i - 1) (Split xs c)) [c]" ..
      have "drop i (Split (x # xs) c) = drop (i - 1) (Split xs c)"
        using Cons.prems(1) \<open>x = c\<close> by (cases i) auto
      with p show ?thesis by (metis append_Cons)
    qed
  next
    case False
    with Cons.prems have "i < length (Split xs c)"
      by (simp add: Split_Cons_other)
    from Cons.IH [OF Cons.prems(1) this] obtain p where
      p: "xs = p @ c # Join (drop i (Split xs c)) [c]" ..
    have "drop i (Split (x # xs) c) = drop i (Split xs c)"
      using Cons.prems(1) False by (cases i) (auto simp: Split_Cons_other drop_Suc)
    with p show ?thesis by (metis append_Cons)
  qed
qed simp

lemma suffix_Join_drop_Split:
  assumes "s = p @ c # t"
  shows "1 \<le> length (Split p c)" and "length (Split p c) < length (Split s c)"
    and "Join (drop (length (Split p c)) (Split s c)) [c] = t"
  using assms by (simp_all add: Split_append_sep Suc_leI)

lemma label_suffixes:
  "(\<exists>i. 1 \<le> i \<and> i < length (Split s c) \<and> P (Join (drop i (Split s c)) [c])) \<longleftrightarrow>
   (\<exists>p t. s = p @ c # t \<and> P t)"
  by (metis Join_drop_Split_suffix suffix_Join_drop_Split)

subsection \<open>Fields\<close>

lemma fields_acc_ok:
  "\<forall>c \<in> set cur. \<not> is_space c \<Longrightarrow> f \<in> set (fields_acc cur s) \<Longrightarrow>
    f \<noteq> [] \<and> (\<forall>c \<in> set f. \<not> is_space c)"
proof (induction s arbitrary: cur)
  case Nil
  then show ?case by (simp split: if_splits)
next
  case (Cons c s)
  show ?case
  proof (cases "is_space c")
    case True
    with Cons.prems(2) have "f = cur \<and> cur \<noteq> [] \<or> f \<in> set (fields_acc [] s)"
      by (simp split: if_splits)
    with Cons.IH [of "[]"] Cons.prems(1) show ?thesis by auto
  next
    case False
    with Cons.prems have "\<forall>c \<in> set (cur @ [c]). \<not> is_space c" "f \<in> set (fields_acc (cur @ [c]) s)"
      by auto
    then show ?thesis by (rule Cons.IH)
  qed
qed

lemma Fields_elem: "f \<in> set (Fields s) \<Longrightarrow> f \<noteq> [] \<and> (\<forall>c \<in> set f. \<not> is_space c)"
  unfolding Fields_def by (rule fields_acc_ok) auto

lemma TrimSpace_no_space: "\<forall>c \<in> set f. \<not> is_space c \<Longrightarrow> TrimSpace f = f"
  by (auto simp: TrimSpace_eq_self_iff)

subsection \<open>Decimal numbers\<close>

lemma of_char_digit_char: "d < 10 \<Longrightarrow> of_char (digit_char d) = 48 + d"
  by (simp add: digit_char_def)

lemma digit_char_inj: "d < 10 \<Longrightarrow> e < 10 \<Longrightarrow> digit_char d = digit_char e \<longleftrightarrow> d = e"
  by (metis add_left_cancel of_char_digit_char)

lemma Itoa_not_Nil [simp]: "Itoa n \<noteq> []"
  by (subst Itoa.simps) simp

lemma Itoa_inj: "Itoa m = Itoa n \<longleftrightarrow> m = n"
proof
  show "Itoa m = Itoa n \<Longrightarrow> m = n"
  proof (induction m arbitrary: n rule: Itoa.induct)
    case (1 m)
    show ?case
    proof (cases "m < 10 \<or> n < 10")
      case True
      with "1.prems" have "m < 10 \<and> n < 10"
        by (auto simp: Itoa.simps [of m] Itoa.simps [of n] Itoa_not_Nil [THEN not_sym] split: if_splits)
      with "1.prems" show ?thesis
        by (simp add: Itoa.simps [of m] Itoa.simps [of n] digit_char_inj)
    next
      case False
      with "1.prems" have "Itoa (m div 10) = Itoa (n div 10)"
        and "digit_char (m mod 10) = digit_char (n mod 10)"
        by (simp_all add: Itoa.simps [of m] Itoa.simps [of n])
      with False "1.IH" have "m div 10 = n div 10" and "m mod 10 = n mod 10"
        by (simp_all add: digit_char_inj)
      then show ?thesis by (metis div_mult_mod_eq)
    qed
  qed
qed simp

lemma set_Itoa: "c \<in> set (Itoa n) \<Longrightarrow> \<exists>d < 10. c = digit_char d"
proof (induction n rule: Itoa.induct)
  case (1 n)
  then show ?case
    by (cases "n < 10") (auto simp: Itoa.simps [of n] intro: exI [of _ "n mod 10"])
qed

lemma Itoa_no_char: "of_char c < (48::nat) \<or> (57::nat) < of_char c \<Longrightarrow> c \<notin> set (Itoa n)"
  by (auto dest!: set_Itoa simp: of_char_digit_char)

subsection \<open>The most specific suffix\<close>

lemma Split_set: "e \<in> set (Split s c) \<Longrightarrow> c \<notin> set e"
proof (induction s arbitrary: e)
  case (Cons x xs)
  then show ?case
  proof (cases "x = c")
    case False
    from Cons.prems False have "e = x # hd (Split xs c) \<or> e \<in> set (tl (Split xs c))"
      by (simp add: Split_Cons_other)
    then show ?thesis
      using Cons.IH False by (metis Split_not_Nil hd_in_set list.set_sel(2) set_ConsD)
  qed auto
qed simp

lemma Split_Join:
  "es \<noteq> [] \<Longrightarrow> \<forall>e \<in> set es. c \<notin> set e \<Longrightarrow> Split (Join es [c]) c = es"
proof (induction es)
  case (Cons e es)
  then show ?case
    by (cases "es = []") (auto simp: Join_Cons Split_append_sep Split_no_sep)
qed simp

lemma Join_drop_Split_index:
  assumes "1 \<le> i" "i < length (Split s c)"
  obtains p where "s = p @ c # Join (drop i (Split s c)) [c]" "length (Split p c) = i"
proof -
  let ?t = "Join (drop i (Split s c)) [c]"
  from assms obtain p where p: "s = p @ c # ?t"
    using Join_drop_Split_suffix by blast
  have "Split ?t c = drop i (Split s c)"
    using assms(2) by (intro Split_Join) (auto dest: in_set_dropD Split_set)
  moreover have "Split s c = Split p c @ Split ?t c"
    by (subst p) (rule Split_append_sep)
  ultimately have "length (Split s c) = length (Split p c) + (length (Split s c) - i)"
    by (metis length_append length_drop)
  with assms(2) have "length (Split p c) = i" by linarith
  with p that show thesis by blast
qed

lemma Split_length_mono:
  assumes "s = p @ c # t" "s = p' @ c # t'"
  shows "length (Split p c) < length (Split p' c) \<longleftrightarrow> length p < length p'"
proof -
  have lt: "length (Split q c) < length (Split q' c)"
    if "s = q @ c # u" "s = q' @ c # u'" "length q < length q'" for q q' u u'
  proof -
    from that have "q @ c # u = q' @ c # u'" by simp
    with that(3) obtain m where "q' = q @ c # m"
      by (auto simp: append_eq_append_conv2 Cons_eq_append_conv)
    then show ?thesis by (simp add: Split_append_sep)
  qed
  have "p = p'" if "length p = length p'" using assms that by simp
  with lt [OF assms] lt [OF assms(2,1)] show ?thesis
    by (metis less_irrefl less_trans linorder_less_linear)
qed

lemma Split_suffix_last:
  assumes s: "s = p @ c # t" and last: "last s = c"
  shows "length (Split p c) < length (Split s c) - 1 \<longleftrightarrow> t \<noteq> []"
proof (cases t rule: rev_cases)
  case (snoc u x)
  with s last have "t = u @ c # []" by simp
  then have "length (Split t c) = length (Split u c) + 1" by (simp only: Split_append_sep) simp
  with s snoc show ?thesis by (simp add: Split_append_sep Suc_le_eq)
qed (simp add: s Split_append_sep)

text \<open>
  The index loop over the parts of a name that ends with the separator finds the longest suffix
  after a separator for which \<open>f\<close> has a value.
\<close>

lemma first_hit_suffix:
  assumes "last s = c"
  shows "first_hit (\<lambda>j. f (Join (drop j (Split s c)) [c])) 1 (length (Split s c) - 1) r \<longleftrightarrow>
    (\<exists>p t. s = p @ c # t \<and> t \<noteq> [] \<and> f t = Some r \<and>
      (\<forall>p' t'. s = p' @ c # t' \<and> length p' < length p \<longrightarrow> f t' = None))"
    (is "?L \<longleftrightarrow> ?R")
proof
  assume ?L
  then obtain j where j: "1 \<le> j" "j < length (Split s c) - 1" "f (Join (drop j (Split s c)) [c]) = Some r"
    and none: "\<And>k. 1 \<le> k \<Longrightarrow> k < j \<Longrightarrow> f (Join (drop k (Split s c)) [c]) = None"
    by (auto simp: first_hit_def)
  from j(2) have "j < length (Split s c)" by linarith
  with j(1) obtain p where p: "s = p @ c # Join (drop j (Split s c)) [c]" "length (Split p c) = j"
    by (rule Join_drop_Split_index)
  have "f t' = None" if "s = p' @ c # t'" "length p' < length p" for p' t'
    using none [of "length (Split p' c)"] suffix_Join_drop_Split [OF that(1)]
      Split_length_mono [OF that(1) p(1)] that(2) p(2) by simp
  moreover have "Join (drop j (Split s c)) [c] \<noteq> []"
    using Split_suffix_last [OF p(1) assms] p(2) j(2) by simp
  ultimately show ?R using p(1) j(3) by blast
next
  assume ?R
  then obtain p t where p: "s = p @ c # t" "t \<noteq> []" "f t = Some r"
    and none: "\<And>p' t'. s = p' @ c # t' \<Longrightarrow> length p' < length p \<Longrightarrow> f t' = None" by blast
  let ?j = "length (Split p c)"
  have "f (Join (drop k (Split s c)) [c]) = None" if k: "1 \<le> k" "k < ?j" for k
  proof -
    from k(2) suffix_Join_drop_Split(2) [OF p(1)] have "k < length (Split s c)" by linarith
    with k(1) obtain p' where p': "s = p' @ c # Join (drop k (Split s c)) [c]" "length (Split p' c) = k"
      by (rule Join_drop_Split_index)
    then show ?thesis using none [OF p'(1)] Split_length_mono [OF p'(1) p(1)] k(2) by simp
  qed
  then show ?L
    unfolding first_hit_def
    using suffix_Join_drop_Split [OF p(1)] Split_suffix_last [OF p(1) assms] p(2,3)
    by (intro exI [of _ ?j]) auto
qed

subsection \<open>Fields of a line\<close>

lemma fields_acc_append:
  "\<forall>c \<in> set f. \<not> is_space c \<Longrightarrow> fields_acc cur (f @ s) = fields_acc (cur @ f) s"
  by (induction f arbitrary: cur) auto

lemma Fields_three:
  assumes "\<forall>f \<in> {f1, f2, f3}. f \<noteq> [] \<and> (\<forall>c \<in> set f. \<not> is_space c)"
  shows "Fields (f1 @ '' '' @ f2 @ '' '' @ f3) = [f1, f2, f3]"
proof -
  have sp: "is_space CHR '' ''" by (simp add: is_space_def)
  have "fields_acc cur f3 = fields_acc (cur @ f3) []" for cur
    using fields_acc_append [of f3 cur "[]"] assms by simp
  then show ?thesis
    using assms sp by (simp add: Fields_def fields_acc_append)
qed

end
