(* ===== verification/GoBufio.thy ===== *)
theory GoBufio
  imports GoStrings
begin

text \<open>
  Go's \<^verbatim>\<open>bufio.Scanner\<close> with its default line splitting, as the record and list parsers use it.
  A reader delivers bytes and then either the end of the input or a read error.
\<close>

record reader =
  rd_data :: string
  rd_err :: "goerror option"

definition newline :: char where "newline = CHR 0x0A"
definition cr :: char where "cr = CHR 0x0D"

text \<open>The lines with their terminators removed; a last line may lack its newline.\<close>

definition raw_lines :: "string \<Rightarrow> string list" where
  "raw_lines s = (let ls = Split s newline in if last ls = [] then butlast ls else ls)"

definition dropCR :: "string \<Rightarrow> string" where
  "dropCR l = (if l \<noteq> [] \<and> last l = cr then butlast l else l)"

text \<open>
  \<^verbatim>\<open>MaxScanTokenSize\<close> is 64 * 1024. The buffer holds that many bytes, and a line must fit with
  its newline, so a line of 65536 bytes or more stops the scan with \<^verbatim>\<open>ErrTooLong\<close>; the lines
  before it have been delivered.
\<close>

definition MaxScanTokenSize :: nat where "MaxScanTokenSize = 65536"

definition ErrTooLong :: goerror where "ErrTooLong = ''bufio.Scanner: token too long''"

definition line_fits :: "string \<Rightarrow> bool" where
  "line_fits l \<longleftrightarrow> length l < MaxScanTokenSize"

definition scan_tokens :: "reader \<Rightarrow> string list" where
  "scan_tokens r = map dropCR (takeWhile line_fits (raw_lines (rd_data r)))"

definition scan_err :: "reader \<Rightarrow> goerror option" where
  "scan_err r = (if list_all line_fits (raw_lines (rd_data r)) then rd_err r else Some ErrTooLong)"

lemmas scan_eval = scan_tokens_def scan_err_def raw_lines_def dropCR_def line_fits_def
  MaxScanTokenSize_def newline_def cr_def Split.simps(2)

lemma dropCR_set: "set (dropCR l) \<subseteq> set l"
  by (auto simp: dropCR_def dest: in_set_butlastD)

lemma scan_tokens_ok: "list_all line_fits (raw_lines (rd_data r)) \<Longrightarrow>
    scan_tokens r = map dropCR (raw_lines (rd_data r))"
  by (simp add: scan_tokens_def list_all_iff takeWhile_eq_self_iff [THEN iffD2])

text \<open>Writing lines that fit and hold no terminator, one per line, reads back as those lines.\<close>

fun unlines :: "string list \<Rightarrow> string" where
  "unlines [] = []"
| "unlines (l # ls) = l @ newline # unlines ls"

lemma Split_unlines: "\<forall>l \<in> set ls. newline \<notin> set l \<Longrightarrow> Split (unlines ls) newline = ls @ [[]]"
  by (induction ls) (auto simp: Split_append_sep Split_no_sep)

lemma scan_unlines:
  assumes "\<forall>l \<in> set ls. newline \<notin> set l \<and> cr \<notin> set l \<and> line_fits l"
  shows "scan_tokens \<lparr>rd_data = unlines ls, rd_err = e\<rparr> = ls"
    and "scan_err \<lparr>rd_data = unlines ls, rd_err = e\<rparr> = e"
proof -
  have raw: "raw_lines (unlines ls) = ls"
    using assms by (simp add: raw_lines_def Split_unlines)
  have "map dropCR ls = ls"
    using assms by (intro map_idI) (auto simp: dropCR_def dest: last_in_set)
  then show "scan_tokens \<lparr>rd_data = unlines ls, rd_err = e\<rparr> = ls"
    using assms raw by (simp add: scan_tokens_def takeWhile_eq_self_iff [THEN iffD2])
  show "scan_err \<lparr>rd_data = unlines ls, rd_err = e\<rparr> = e"
    using assms raw by (simp add: scan_err_def list_all_iff)
qed

end
