(* ===== verification/GoPath.thy ===== *)
theory GoPath
  imports GoStrings
begin

text \<open>
  Go's \<^verbatim>\<open>path/filepath\<close> on a Unix system: \<^verbatim>\<open>Clean\<close> and \<^verbatim>\<open>Join\<close>. \<^verbatim>\<open>Clean\<close> is written
  on path elements: its byte loop skips empty and dot elements, lets a dot-dot element remove the
  element before it, keeps a dot-dot element it cannot resolve in a relative path and drops it in
  a rooted one.
\<close>

definition slash :: char where "slash = CHR ''/''"

definition clean_elem :: "bool \<Rightarrow> string list \<Rightarrow> string \<Rightarrow> string list" where
  "clean_elem rooted out e =
     (if e = '''' \<or> e = ''.'' then out
      else if e = ''..'' then
        (if out \<noteq> [] \<and> last out \<noteq> ''..'' then butlast out
         else if rooted then out
         else out @ [''..''])
      else out @ [e])"

definition clean_elems :: "bool \<Rightarrow> string \<Rightarrow> string list" where
  "clean_elems rooted path = foldl (clean_elem rooted) [] (Split path slash)"

definition is_rooted :: "string \<Rightarrow> bool" where
  "is_rooted path \<longleftrightarrow> HasPrefix path [slash]"

definition render_path :: "bool \<Rightarrow> string list \<Rightarrow> string" where
  "render_path rooted es =
     (if rooted then slash # Join es [slash]
      else if es = [] then ''.''
      else Join es [slash])"

definition Clean :: "string \<Rightarrow> string" where
  "Clean path = render_path (is_rooted path) (clean_elems (is_rooted path) path)"

definition PathJoin :: "string list \<Rightarrow> string" where
  "PathJoin elems =
     (case dropWhile (\<lambda>e. e = []) elems of
        [] \<Rightarrow> []
      | es \<Rightarrow> Clean (Join es [slash]))"

section \<open>Lemmas\<close>

text \<open>
  A cleaned path has no empty and no dot element, every element is free of separators, and its
  dot-dot elements stand at the front; a rooted one has none.
\<close>

definition clean_ok :: "bool \<Rightarrow> string list \<Rightarrow> bool" where
  "clean_ok rooted es \<longleftrightarrow>
     (\<forall>e \<in> set es. e \<noteq> '''' \<and> e \<noteq> ''.'' \<and> slash \<notin> set e) \<and>
     (\<exists>n ps. es = replicate n ''..'' @ ps \<and> ''..'' \<notin> set ps \<and> (rooted \<longrightarrow> n = 0))"

lemma clean_elem_ok:
  assumes ok: "clean_ok rooted out" and e: "slash \<notin> set e"
  shows "clean_ok rooted (clean_elem rooted out e)"
proof -
  from ok obtain n ps where out: "out = replicate n ''..'' @ ps" "''..'' \<notin> set ps" "rooted \<longrightarrow> n = 0"
    and good: "\<forall>e \<in> set out. e \<noteq> '''' \<and> e \<noteq> ''.'' \<and> slash \<notin> set e"
    by (auto simp: clean_ok_def)
  show ?thesis
  proof (cases "e = ''..''")
    case nd: False
    show ?thesis
    proof (cases "e = '''' \<or> e = ''.''")
      case True
      with ok show ?thesis by (auto simp: clean_elem_def)
    next
      case False
      then have ce: "clean_elem rooted out e = out @ [e]" and eq: "out @ [e] = replicate n ''..'' @ (ps @ [e])"
        using nd out by (simp_all add: clean_elem_def)
      show ?thesis unfolding ce clean_ok_def
      proof (intro conjI)
        show "\<forall>e \<in> set (out @ [e]). e \<noteq> '''' \<and> e \<noteq> ''.'' \<and> slash \<notin> set e"
          using good False e by auto
        show "\<exists>n qs. out @ [e] = replicate n ''..'' @ qs \<and> ''..'' \<notin> set qs \<and> (rooted \<longrightarrow> n = 0)"
          using eq nd out by (intro exI [of _ n] exI [of _ "ps @ [e]"]) simp
      qed
    qed
  next
    case dd: True
    show ?thesis
    proof (cases "ps = []")
      case True
      with out have out': "out = replicate n ''..''" by simp
      then have "out = [] \<or> last out = ''..''" by (cases n) simp_all
      then have ce: "clean_elem rooted out e = (if rooted then out else out @ [''..''])"
        using dd by (auto simp: clean_elem_def)
      have "clean_ok False (replicate (Suc n) ''..'')"
        unfolding clean_ok_def by (auto simp: slash_def intro: exI [of _ "Suc n"] exI [of _ "[]"])
      then have "clean_ok False (out @ [''..''])"
        by (simp only: out' replicate_Suc replicate_append_same)
      with ce ok show ?thesis by (cases rooted) simp_all
    next
      case False
      with out have "last out \<noteq> ''..''" "out \<noteq> []" by (auto dest: last_in_set)
      moreover have "butlast out = replicate n ''..'' @ butlast ps"
        using False out by (simp add: butlast_append)
      ultimately show ?thesis using dd out good
        by (auto simp: clean_elem_def clean_ok_def dest: in_set_butlastD intro!: exI [of _ n] exI [of _ "butlast ps"])
    qed
  qed
qed

lemma clean_elems_ok: "clean_ok rooted (clean_elems rooted path)"
proof -
  have "clean_ok rooted (foldl (clean_elem rooted) out es)"
    if "clean_ok rooted out" "\<forall>e \<in> set es. slash \<notin> set e" for out es
    using that by (induction es arbitrary: out) (auto intro: clean_elem_ok)
  moreover have "clean_ok rooted []" by (simp add: clean_ok_def)
  ultimately show ?thesis
    unfolding clean_elems_def using Split_set by blast
qed

lemma clean_ok_dotdot_prefix:
  assumes "clean_ok rooted (out @ ''..'' # es)"
  shows "\<not> rooted" and "out = [] \<or> last out = ''..''"
proof -
  from assms obtain n ps where split: "out @ ''..'' # es = replicate n ''..'' @ ps"
    "''..'' \<notin> set ps" "rooted \<longrightarrow> n = 0"
    by (auto simp: clean_ok_def)
  have len: "length out < n"
  proof (rule ccontr)
    assume "\<not> length out < n"
    with split(1) have "drop n out @ ''..'' # es = ps"
      by (simp add: append_eq_append_conv_if split: if_splits)
    with split(2) show False by auto
  qed
  then show "\<not> rooted" using split(3) by auto
  have "out = take (length out) (replicate n ''..'' @ ps)"
    by (simp flip: split(1))
  also have "\<dots> = replicate (length out) ''..''"
    using len by (simp add: min_def)
  finally show "out = [] \<or> last out = ''..''"
    by (metis last_replicate length_0_conv)
qed

text \<open>Cleaning leaves a clean element list as it is.\<close>

lemma foldl_clean_elem_id:
  "clean_ok rooted (out @ es) \<Longrightarrow> foldl (clean_elem rooted) out es = out @ es"
proof (induction es arbitrary: out)
  case (Cons e es)
  have "clean_elem rooted out e = out @ [e]"
  proof (cases "e = ''..''")
    case True
    with Cons.prems have "\<not> rooted" "out = [] \<or> last out = ''..''"
      using clean_ok_dotdot_prefix by blast+
    with True show ?thesis by (auto simp: clean_elem_def)
  next
    case False
    with Cons.prems show ?thesis by (simp add: clean_elem_def clean_ok_def)
  qed
  with Cons.IH [of "out @ [e]"] Cons.prems show ?case by simp
qed simp

lemma clean_elems_render:
  assumes ok: "clean_ok rooted es"
  shows "is_rooted (render_path rooted es) = rooted"
    and "clean_elems rooted (render_path rooted es) = es"
proof -
  have noslash: "\<forall>e \<in> set es. slash \<notin> set e" and ne: "\<forall>e \<in> set es. e \<noteq> []"
    using ok by (auto simp: clean_ok_def)
  show "is_rooted (render_path rooted es) = rooted"
  proof (cases es)
    case (Cons e t)
    then obtain x e' where "e = x # e'" "x \<noteq> slash"
      using noslash ne by (cases e) auto
    with Cons show ?thesis
      by (cases t) (auto simp: render_path_def is_rooted_def HasPrefix_def)
  qed (simp add: render_path_def is_rooted_def HasPrefix_def slash_def)
  have "foldl (clean_elem rooted) [] es = es"
    using foldl_clean_elem_id [of rooted "[]" es] ok by simp
  moreover have "foldl (clean_elem rooted) [] [''.''] = []" "foldl (clean_elem rooted) [] [''''] = []"
    by (simp_all add: clean_elem_def)
  moreover have "Split ''.'' slash = [''.'']" by (simp add: Split_no_sep slash_def)
  ultimately show "clean_elems rooted (render_path rooted es) = es"
    using noslash by (cases "es = []")
      (auto simp: clean_elems_def render_path_def Split_Join clean_elem_def)
qed

lemma Clean_idem: "Clean (Clean path) = Clean path"
  by (simp add: Clean_def clean_elems_render clean_elems_ok)

lemma Clean_not_Nil: "Clean path \<noteq> []"
proof -
  have "Join es [slash] \<noteq> []" if "es \<noteq> []" "\<forall>e \<in> set es. e \<noteq> []" for es
    using that by (cases "tl es = []"; cases es) (auto simp: Join_Cons)
  then show ?thesis
    using clean_elems_ok [of "is_rooted path" path]
    by (auto simp: Clean_def render_path_def clean_ok_def)
qed

lemma set_Split_Join: "\<forall>e \<in> set es. c \<notin> set e \<Longrightarrow> set (Split (Join es [c]) c) \<subseteq> insert [] (set es)"
  by (cases "es = []") (auto simp: Split_Join)

text \<open>A cleaned path that is not a dot-dot and does not start with one has none at all.\<close>

lemma Clean_no_dotdot:
  assumes "p = Clean path" "p \<noteq> ''..''" "\<not> HasPrefix p (''..'' @ [slash])"
  shows "''..'' \<notin> set (Split p slash)"
proof -
  let ?r = "is_rooted path"
  let ?es = "clean_elems ?r path"
  obtain n ps where es: "?es = replicate n ''..'' @ ps" "''..'' \<notin> set ps" "?r \<longrightarrow> n = 0"
    and noslash: "\<forall>e \<in> set ?es. slash \<notin> set e"
    using clean_elems_ok [of ?r path] by (auto simp: clean_ok_def)
  have "n = 0"
  proof (rule ccontr)
    assume "n \<noteq> 0"
    then obtain t where t: "?es = ''..'' # t" "\<not> ?r" using es by (cases n) auto
    then have "p = Join (''..'' # t) [slash]" using assms(1) by (simp add: Clean_def render_path_def)
    then show False using assms(2,3) by (cases t) (auto simp: str_simps)
  qed
  then have no: "''..'' \<notin> set ?es" using es by simp
  have "set (Split p slash) \<subseteq> set ?es \<union> {'''', ''.''}"
    using set_Split_Join [OF noslash]
    by (auto simp: assms(1) Clean_def render_path_def Split_no_sep slash_def split: if_splits)
  then show ?thesis using no by auto
qed

end
