(* ===== verification/GoNet.thy ===== *)
theory GoNet
  imports GoStrings
begin

text \<open>
  The parts of Go's \<^verbatim>\<open>net\<close> package that the program calls: \<^verbatim>\<open>ParseIP\<close> (with the IPv4 and
  IPv6 parsers of \<^verbatim>\<open>net/netip\<close> behind it) and \<^verbatim>\<open>SplitHostPort\<close>. An address is its 16 bytes,
  an IPv4 address in its IPv4-in-IPv6 form, as \<^verbatim>\<open>net.IP\<close> holds it.
\<close>

section \<open>ParseIP\<close>

type_synonym ip = "u8 list"


fun digit_val :: "char \<Rightarrow> nat option" where
  "digit_val c = (if (48::nat) \<le> of_char c \<and> of_char c \<le> (57::nat) then Some (of_char c - 48) else None)"

fun hex_val :: "char \<Rightarrow> nat option" where
  "hex_val c =
    (let n = (of_char c :: nat) in
     if 48 \<le> n \<and> n \<le> 57 then Some (n - 48)
     else if 97 \<le> n \<and> n \<le> 102 then Some (n - 97 + 10)
     else if 65 \<le> n \<and> n \<le> 70 then Some (n - 65 + 10)
     else None)"

text \<open>
  The loop of \<^verbatim>\<open>parseIPv4Fields\<close>: \<open>val\<close> and \<open>digLen\<close> describe the octet being read,
  \<open>fields\<close> the octets finished so far. A dot is refused where no digit precedes it or nothing
  follows it.
\<close>

fun parseIPv4Fields :: "nat \<Rightarrow> nat \<Rightarrow> nat list \<Rightarrow> string \<Rightarrow> nat list option" where
  "parseIPv4Fields val digLen fields [] =
     (if length fields < 3 then None else Some (fields @ [val]))"
| "parseIPv4Fields val digLen fields (c # s) =
     (case digit_val c of
        Some d \<Rightarrow>
          if digLen = 1 \<and> val = 0 then None
          else if val * 10 + d > 255 then None
          else parseIPv4Fields (val * 10 + d) (Suc digLen) fields s
      | None \<Rightarrow>
          if c = CHR ''.'' then
            if digLen = 0 \<or> s = [] then None
            else if length fields = 3 then None
            else parseIPv4Fields 0 0 (fields @ [val]) s
          else None)"

definition v4InV6Prefix :: "u8 list" where
  "v4InV6Prefix = [0, 0, 0, 0, 0, 0, 0, 0, 0, 0, 255, 255]"

definition parseIPv4 :: "string \<Rightarrow> ip option" where
  "parseIPv4 s = map_option (\<lambda>fs. v4InV6Prefix @ map of_nat fs) (parseIPv4Fields 0 0 [] s)"

text \<open>
  One hexadecimal group of an IPv6 address: at most four digits; the value and what follows.
\<close>

fun hex_group :: "nat \<Rightarrow> nat \<Rightarrow> string \<Rightarrow> (nat \<times> nat \<times> string) option" where
  "hex_group acc off [] = Some (acc, off, [])"
| "hex_group acc off (c # s) =
     (case hex_val c of
        None \<Rightarrow> Some (acc, off, c # s)
      | Some d \<Rightarrow>
          if off > 3 then None
          else if acc * 16 + d > 65535 then None
          else hex_group (acc * 16 + d) (Suc off) s)"

lemma hex_group_rest: "hex_group acc off s = Some (a, f, r) \<Longrightarrow> length r \<le> length s"
  by (induction acc off s rule: hex_group.induct) (auto simp del: hex_val.simps split: option.splits if_splits)

text \<open>
  The group loop of \<^verbatim>\<open>parseIPv6\<close>. \<open>bytes\<close> are the bytes written so far (their number is the
  loop's \<open>i\<close>), \<open>ell\<close> the position of the ellipsis. The result is what the loop leaves: the
  bytes, the ellipsis and the unread rest of the string. Each round consumes a group and its
  colon, so the loop ends.
\<close>

function ipv6_loop :: "nat list \<Rightarrow> nat option \<Rightarrow> string \<Rightarrow> (nat list \<times> nat option \<times> string) option" where
  "ipv6_loop bytes ell s =
     (if 16 \<le> length bytes then Some (bytes, ell, s)
      else case hex_group 0 0 s of
        None \<Rightarrow> None
      | Some (acc, off, rest) \<Rightarrow>
          if off = 0 then None
          else if rest \<noteq> [] \<and> hd rest = CHR ''.'' then
            if ell = None \<and> length bytes \<noteq> 12 then None
            else if length bytes + 4 > 16 then None
            else (case parseIPv4Fields 0 0 [] s of
                    None \<Rightarrow> None
                  | Some fs \<Rightarrow> Some (bytes @ fs, ell, []))
          else
            let bytes' = bytes @ [acc div 256, acc mod 256] in
            (case rest of
               [] \<Rightarrow> Some (bytes', ell, [])
             | c # rest1 \<Rightarrow>
                 if c \<noteq> CHR '':'' then None
                 else (case rest1 of
                    [] \<Rightarrow> None
                  | d # rest2 \<Rightarrow>
                      if d = CHR '':'' then
                        if ell \<noteq> None then None
                        else if rest2 = [] then Some (bytes', Some (length bytes'), [])
                        else ipv6_loop bytes' (Some (length bytes')) rest2
                      else ipv6_loop bytes' ell (d # rest2))))"
  by pat_completeness auto
termination
  by (relation "measure (\<lambda>(b, e, s). length s)") (auto dest: hex_group_rest)

declare ipv6_loop.simps [simp del]

definition expand_ellipsis :: "nat list \<Rightarrow> nat option \<Rightarrow> nat list option" where
  "expand_ellipsis bytes ell =
     (if length bytes < 16 then
        (case ell of
           None \<Rightarrow> None
         | Some e \<Rightarrow> Some (take e bytes @ replicate (16 - length bytes) 0 @ drop e bytes))
      else if ell \<noteq> None then None
      else Some bytes)"

text \<open>
  A percent sign starts a zone. \<^verbatim>\<open>ParseIP\<close> refuses an address with a zone, and an empty zone
  is an error, so any percent sign makes the result \<^verbatim>\<open>nil\<close>.
\<close>

definition parseIPv6 :: "string \<Rightarrow> ip option" where
  "parseIPv6 s =
     (if CHR ''%'' \<in> set s then None
      else
        let ell = (if HasPrefix s ''::'' then Some 0 else None);
            s' = (if HasPrefix s ''::'' then drop 2 s else s)
        in
        if ell = Some 0 \<and> s' = [] then Some (replicate 16 0)
        else (case ipv6_loop [] ell s' of
            None \<Rightarrow> None
          | Some (bytes, ell', rest) \<Rightarrow>
              if rest \<noteq> [] then None
              else map_option (map of_nat) (expand_ellipsis bytes ell')))"

text \<open>\<^verbatim>\<open>ParseIP\<close> picks the parser by the first of \<^verbatim>\<open>.\<close>, \<^verbatim>\<open>:\<close> and \<^verbatim>\<open>%\<close> in the string.\<close>

definition is_ip_mark :: "char \<Rightarrow> bool" where
  "is_ip_mark c \<longleftrightarrow> c = CHR ''.'' \<or> c = CHR '':'' \<or> c = CHR ''%''"

definition ParseIP :: "string \<Rightarrow> ip option" where
  "ParseIP s =
     (case dropWhile (\<lambda>c. \<not> is_ip_mark c) s of
        [] \<Rightarrow> None
      | c # _ \<Rightarrow>
          if c = CHR ''.'' then parseIPv4 s
          else if c = CHR '':'' then parseIPv6 s
          else None)"

section \<open>SplitHostPort\<close>

fun IndexByte :: "string \<Rightarrow> char \<Rightarrow> nat option" where
  "IndexByte [] c = None"
| "IndexByte (x # xs) c = (if x = c then Some 0 else map_option Suc (IndexByte xs c))"

fun LastIndexByte :: "string \<Rightarrow> char \<Rightarrow> nat option" where
  "LastIndexByte [] c = None"
| "LastIndexByte (x # xs) c =
     (case LastIndexByte xs c of
        Some i \<Rightarrow> Some (Suc i)
      | None \<Rightarrow> if x = c then Some 0 else None)"

text \<open>
  The result is host, port and error; every error path returns two empty strings. The error is
  the reason of the \<^verbatim>\<open>AddrError\<close>.
\<close>

definition SplitHostPort :: "string \<Rightarrow> string \<times> string \<times> goerror option" where
  "SplitHostPort hostport =
     (case LastIndexByte hostport CHR '':'' of
        None \<Rightarrow> ([], [], Some ''missing port in address'')
      | Some i \<Rightarrow>
          let bracket = (hostport \<noteq> [] \<and> hd hostport = CHR ''[''); 
              checked = (if bracket then
                (case IndexByte hostport CHR '']'' of
                   None \<Rightarrow> Inl ''missing ']' in address''
                 | Some e \<Rightarrow>
                     if e + 1 = length hostport then Inl ''missing port in address''
                     else if e + 1 = i then Inr (take (e - 1) (drop 1 hostport), 1, e + 1)
                     else if hostport ! (e + 1) = CHR '':'' then Inl ''too many colons in address''
                     else Inl ''missing port in address'')
               else if CHR '':'' \<in> set (take i hostport) then Inl ''too many colons in address''
               else Inr (take i hostport, 0, 0))
          in (case checked of
                Inl e \<Rightarrow> ([], [], Some e)
              | Inr (host, j, k) \<Rightarrow>
                  if CHR ''['' \<in> set (drop j hostport) then ([], [], Some ''unexpected '[' in address'')
                  else if CHR '']'' \<in> set (drop k hostport) then ([], [], Some ''unexpected ']' in address'')
                  else (host, drop (i + 1) hostport, None)))"

lemmas ParseIP_eval = ParseIP_def parseIPv4_def parseIPv6_def is_ip_mark_def HasPrefix_def
  expand_ellipsis_def v4InV6Prefix_def ipv6_loop.simps replicate_numeral_eval

section \<open>Lemmas\<close>

lemma parseIPv4Fields_length:
  "length fields \<le> 3 \<Longrightarrow> parseIPv4Fields val digLen fields s = Some fs \<Longrightarrow> length fs = 4"
  by (induction val digLen fields s rule: parseIPv4Fields.induct)
    (auto simp del: digit_val.simps split: option.splits if_splits)

lemma parseIPv4_length: "parseIPv4 s = Some a \<Longrightarrow> length a = 16"
  by (auto simp: parseIPv4_def v4InV6Prefix_def dest!: parseIPv4Fields_length [rotated])

text \<open>
  One round of the group loop: it stops at sixteen bytes, takes an embedded IPv4 address, ends
  after a group, or goes on with a shorter string, possibly past an ellipsis.
\<close>

lemma ipv6_loop_round:
  assumes "ipv6_loop bytes ell s = Some (bs, e, r)"
  obtains (full) "16 \<le> length bytes" "bs = bytes" "e = ell"
  | (v4) fs where "length bytes + 4 \<le> 16" "length fs = 4" "bs = bytes @ fs" "e = ell"
  | (stop) x y where "length bytes < 16" "bs = bytes @ [x, y]" "e = ell \<or> e = Some (length bytes + 2)"
  | (more) x y ell' t where "length bytes < 16" "length t < length s"
      "ell' = ell \<or> ell' = Some (length bytes + 2)" "ipv6_loop (bytes @ [x, y]) ell' t = Some (bs, e, r)"
proof (cases "16 \<le> length bytes")
  case True
  with assms have "bs = bytes" "e = ell"
    by (simp_all add: ipv6_loop.simps [of bytes ell s])
  with True show thesis by (rule full)
next
  case False
  with assms obtain acc off rest where g: "hex_group 0 0 s = Some (acc, off, rest)" "off \<noteq> 0"
    by (auto simp: ipv6_loop.simps [of bytes ell s] split: option.splits if_splits)
  note unf = assms [unfolded ipv6_loop.simps [of bytes ell s] Let_def]
  have len: "length rest \<le> length s" using g hex_group_rest by blast
  show thesis
  proof (cases "rest \<noteq> [] \<and> hd rest = CHR ''.''")
    case True
    with unf False g have "\<exists>fs. length bytes + 4 \<le> 16 \<and> length fs = 4 \<and> bs = bytes @ fs \<and> e = ell"
      by (auto split: option.splits if_splits dest!: parseIPv4Fields_length [rotated])
    then show thesis using v4 by blast
  next
    case nodot: False
    define bytes' where "bytes' = bytes @ [acc div 256, acc mod 256]"
    have "bs = bytes' \<and> (e = ell \<or> e = Some (length bytes + 2)) \<or>
       (\<exists>ell' t. length t < length s \<and> (ell' = ell \<or> ell' = Some (length bytes + 2)) \<and>
         ipv6_loop bytes' ell' t = Some (bs, e, r))"
    proof (cases rest)
      case Nil
      with unf False g nodot show ?thesis by (simp add: bytes'_def)
    next
      case (Cons c rest1)
      with unf False g nodot obtain d rest2 where d: "rest1 = d # rest2" "c = CHR '':''"
        by (cases rest1) (simp_all split: if_splits)
      with Cons len have "length rest2 < length s" "length rest1 < length s" by simp_all
      moreover have "d \<noteq> CHR '':'' \<Longrightarrow> ipv6_loop bytes' ell rest1 = Some (bs, e, r)"
        using unf False g nodot Cons d by (simp add: bytes'_def)
      moreover have "d = CHR '':'' \<Longrightarrow> rest2 \<noteq> [] \<Longrightarrow>
          ipv6_loop bytes' (Some (length bytes + 2)) rest2 = Some (bs, e, r)"
        using unf False g nodot Cons d by (simp add: bytes'_def split: if_splits)
      moreover have "d = CHR '':'' \<Longrightarrow> rest2 = [] \<Longrightarrow> bs = bytes' \<and> e = Some (length bytes + 2)"
        using unf False g nodot Cons d by (simp add: bytes'_def split: if_splits)
      ultimately show ?thesis by blast
    qed
    then show thesis using False stop more unfolding bytes'_def not_le by blast
  qed
qed

lemma ipv6_loop_bounds:
  "ipv6_loop bytes ell s = Some (bs, e, r) \<Longrightarrow> length bytes \<le> 16 \<Longrightarrow> even (length bytes) \<Longrightarrow>
   (\<forall>k. ell = Some k \<longrightarrow> k \<le> length bytes) \<Longrightarrow>
   length bs \<le> 16 \<and> (\<forall>k. e = Some k \<longrightarrow> k \<le> length bs)"
proof (induction "length s" arbitrary: bytes ell s rule: less_induct)
  case less
  have small: "length bytes < 16 \<Longrightarrow> length bytes + 2 \<le> 16"
    using less.prems(3) by presburger
  from less.prems(1) show ?case
  proof (cases rule: ipv6_loop_round)
    case (more x y ell' t)
    then have "\<forall>k. ell' = Some k \<longrightarrow> k \<le> length (bytes @ [x, y])"
      using less.prems(4) by auto
    with less.hyps [OF more(2,4)] more(1) small less.prems(3) show ?thesis by simp
  qed (use less.prems small in auto)
qed

lemma parseIPv6_length: "parseIPv6 s = Some a \<Longrightarrow> length a = 16"
  by (auto simp: parseIPv6_def expand_ellipsis_def Let_def split: option.splits if_splits
      dest!: ipv6_loop_bounds)

lemma ParseIP_length: "ParseIP s = Some a \<Longrightarrow> length a = 16"
  by (auto simp: ParseIP_def parseIPv4_length parseIPv6_length split: list.splits if_splits)

end
