(* ===== verification/Records.thy ===== *)
theory Records
  imports GoBufio GoPath GoNet
begin

text \<open>
  \<^verbatim>\<open>pkg/records/records.go\<close>: the in-memory store of local records. The package-level map is a
  state passed to and returned by the operations; the lock makes each operation atomic.
\<close>

section \<open>Data\<close>

record Record =
  Typ :: string
  Content :: string

type_synonym record_store = "string \<rightharpoonup> Record"

definition records_CNAME :: string where "records_CNAME = ''cname''"
definition records_A :: string where "records_A = ''a''"

datatype records_error =
    PathEmpty
  | PathIsDirectory string
  | PathEscapes string
  | OpenError goerror
  | ScanError goerror

text \<open>The warnings of the loader, with the line they are about.\<close>

datatype load_warning =
    InvalidFormat string
  | InvalidName string
  | InvalidType string string
  | InvalidAddress string string

section \<open>Operations\<close>

definition normalizeName :: "string \<Rightarrow> string" where
  "normalizeName name =
     (let trimmed = TrimSpace name in
      if trimmed = [] then []
      else
        let lower = ToLower trimmed in
        if HasSuffix lower ''.'' then lower else lower @ ''.'')"

text \<open>The wildcard loop of \<^verbatim>\<open>Get\<close>: index \<open>i\<close> runs from 1 below \<^verbatim>\<open>len(parts)-1\<close>.\<close>

function wildcard_loop :: "record_store \<Rightarrow> string list \<Rightarrow> nat \<Rightarrow> Record option" where
  "wildcard_loop recs parts i =
     (if i < length parts - 1 then
        (case recs (''*.'' @ Join (drop i parts) ''.'') of
           Some r \<Rightarrow> Some r
         | None \<Rightarrow> wildcard_loop recs parts (Suc i))
      else None)"
  by pat_completeness auto
termination
  by (relation "measure (\<lambda>(r, p, i). length p - i)") auto

declare wildcard_loop.simps [simp del]

definition records_Get :: "record_store \<Rightarrow> string \<Rightarrow> Record option" where
  "records_Get recs nm =
     (let name = normalizeName nm in
      if name = [] then None
      else (case recs name of
          Some r \<Rightarrow> Some r
        | None \<Rightarrow> wildcard_loop recs (Split name CHR ''.'') 1))"

definition records_GetAll :: "record_store \<Rightarrow> record_store" where
  "records_GetAll recs = (\<lambda>n. recs n)"

definition records_Add :: "record_store \<Rightarrow> string \<Rightarrow> string \<Rightarrow> string \<Rightarrow> record_store" where
  "records_Add recs nm typ content =
     (let name = normalizeName nm in
      if name = [] then recs
      else recs(name \<mapsto> \<lparr>Typ = ToLower typ, Content = ToLower content\<rparr>))"

definition sanitizeRecordsPath :: "string \<Rightarrow> records_error + string" where
  "sanitizeRecordsPath path =
     (if path = [] then Inl PathEmpty
      else
        let clean = Clean path in
        if clean = ''.'' \<or> clean = [slash] then Inl (PathIsDirectory path)
        else if clean = ''..'' \<or> HasPrefix clean (''..'' @ [slash]) then Inl (PathEscapes path)
        else Inr clean)"

text \<open>
  The body of the scan loop for one line: a comment or empty line changes nothing, an invalid line
  is skipped with a warning, a valid one is stored.
\<close>

definition load_line :: "record_store \<Rightarrow> string \<Rightarrow> record_store \<times> load_warning list" where
  "load_line recs text =
     (let line = TrimSpace text in
      if line = [] \<or> HasPrefix line ''#'' then (recs, [])
      else
        let fields = Fields line in
        if length fields \<noteq> 3 then (recs, [InvalidFormat line])
        else
          let name = normalizeName (fields ! 0) in
          if name = [] then (recs, [InvalidName line])
          else
            let typ = ToLower (fields ! 1) in
            if typ \<noteq> records_CNAME \<and> typ \<noteq> records_A then (recs, [InvalidType typ line])
            else
              let content = ToLower (fields ! 2) in
              if typ = records_A \<and> ParseIP content = None then (recs, [InvalidAddress content line])
              else (recs(name \<mapsto> \<lparr>Typ = typ, Content = content\<rparr>), []))"

fun load_lines :: "record_store \<Rightarrow> string list \<Rightarrow> record_store \<times> load_warning list" where
  "load_lines recs [] = (recs, [])"
| "load_lines recs (l # ls) =
     (let (recs', w) = load_line recs l; (recs'', ws) = load_lines recs' ls in (recs'', w @ ws))"

text \<open>
  \<^verbatim>\<open>LoadFromFile\<close>. Opening the file is a parameter: an error, or a reader of its bytes. The result
  is the new store, the warnings and the error; the store is cleared once the file is open, so a
  failed scan leaves the records read before the failure.
\<close>

definition LoadFromFile ::
    "(string \<Rightarrow> goerror + reader) \<Rightarrow> record_store \<Rightarrow> string \<Rightarrow>
     record_store \<times> load_warning list \<times> records_error option" where
  "LoadFromFile open_file recs filename =
     (case sanitizeRecordsPath filename of
        Inl e \<Rightarrow> (recs, [], Some e)
      | Inr resolvedPath \<Rightarrow>
          (case open_file resolvedPath of
             Inl e \<Rightarrow> (recs, [], Some (OpenError e))
           | Inr file \<Rightarrow>
               let (recs', ws) = load_lines Map.empty (scan_tokens file)
               in (recs', ws, map_option ScanError (scan_err file))))"

section \<open>Names\<close>

lemma normalizeName_Nil_iff: "normalizeName n = [] \<longleftrightarrow> TrimSpace n = []"
  by (simp add: normalizeName_def Let_def)

lemma normalizeName_dot: "normalizeName n \<noteq> [] \<Longrightarrow> last (normalizeName n) = CHR ''.''"
  by (auto simp: normalizeName_def Let_def HasSuffix_one_iff split: if_splits)

lemma lowerc_dot [simp]: "lowerc CHR ''.'' = CHR ''.''"
  by (simp add: lowerc_def is_upper_def)

lemma normalizeName_lower: "ToLower (normalizeName n) = normalizeName n"
  by (simp add: normalizeName_def Let_def) (simp add: ToLower_def)

lemma normalizeName_ToLower: "normalizeName (ToLower n) = normalizeName n"
  by (simp add: normalizeName_def TrimSpace_ToLower)

lemma hd_ToLower: "s \<noteq> [] \<Longrightarrow> hd (ToLower s) = lowerc (hd s)"
  by (simp add: ToLower_def hd_map)

lemma TrimSpace_normalizeName: "TrimSpace (normalizeName n) = normalizeName n"
proof (cases "normalizeName n = []")
  case False
  then have t: "TrimSpace n \<noteq> []" by (simp add: normalizeName_Nil_iff)
  have "hd (normalizeName n) = lowerc (hd (TrimSpace n))"
    using t by (auto simp: normalizeName_def Let_def hd_ToLower hd_append)
  moreover have "\<not> is_space CHR ''.''" by (simp add: is_space_def)
  ultimately show ?thesis
    using False t normalizeName_dot [OF False] hd_TrimSpace [OF t] by (simp add: TrimSpace_eq_self_iff)
qed simp

lemma normalizeName_idem [simp]: "normalizeName (normalizeName n) = normalizeName n"
proof (cases "normalizeName n = []")
  case False
  have "normalizeName (normalizeName n) =
      (if HasSuffix (normalizeName n) ''.'' then normalizeName n else normalizeName n @ ''.'')"
    using False by (simp add: normalizeName_def [of "normalizeName n"] TrimSpace_normalizeName
        normalizeName_lower Let_def)
  then show ?thesis using False normalizeName_dot by (simp add: HasSuffix_one_iff)
qed (simp add: normalizeName_def)

text \<open>A name with and without its final dot is the same name.\<close>

lemma normalizeName_snoc_dot:
  assumes "TrimSpace n = n" "n \<noteq> []" "last n \<noteq> CHR ''.''"
  shows "normalizeName (n @ ''.'') = normalizeName n"
proof -
  have "TrimSpace (n @ ''.'') = n @ ''.''"
    using assms by (auto simp: TrimSpace_eq_self_iff is_space_def)
  moreover have "last (ToLower n) \<noteq> CHR ''.''"
  proof
    assume "last (ToLower n) = CHR ''.''"
    then have "of_char (lowerc (last n)) = (46::nat)"
      using assms(2) by (simp add: ToLower_def last_map)
    then have "of_char (last n) = (of_char CHR ''.'' :: nat)"
      by (simp add: of_char_lowerc is_upper_def split: if_splits)
    then show False using assms(3) by (simp only: of_char_eq_iff)
  qed
  moreover have "ToLower ''.'' = ''.''" by (simp add: ToLower_def)
  ultimately show ?thesis
    using assms by (simp add: normalizeName_def Let_def HasSuffix_one_iff)
qed

section \<open>Lookup\<close>

abbreviation wildcard_key :: "string list \<Rightarrow> nat \<Rightarrow> string" where
  "wildcard_key parts i \<equiv> ''*.'' @ Join (drop i parts) ''.''"

lemma wildcard_loop_first:
  "wildcard_loop recs parts i = Some r \<longleftrightarrow>
     first_hit (\<lambda>j. recs (wildcard_key parts j)) i (length parts - 1) r"
proof (induction recs parts i rule: wildcard_loop.induct)
  case (1 recs parts i)
  show ?case
  proof (cases "i < length parts - 1")
    case False
    then show ?thesis by (subst wildcard_loop.simps) (simp add: first_hit_end)
  next
    case True
    with "1.IH" show ?thesis
      by (subst wildcard_loop.simps)
        (cases "recs (wildcard_key parts i)"; simp add: first_hit_Some first_hit_None)
  qed
qed

lemma records_Get_exact: "recs (normalizeName nm) = Some r \<Longrightarrow> normalizeName nm \<noteq> [] \<Longrightarrow> records_Get recs nm = Some r"
  by (simp add: records_Get_def)

lemma records_Get_normalizeName: "records_Get recs (normalizeName nm) = records_Get recs nm"
  by (simp add: records_Get_def)

lemma records_Get_cong: "normalizeName m = normalizeName n \<Longrightarrow> records_Get recs m = records_Get recs n"
  by (simp add: records_Get_def)

lemma records_Get_empty: "records_Get Map.empty nm = None"
proof -
  have "wildcard_loop Map.empty parts i = None" for parts i
    by (metis first_hit_def option.exhaust option.distinct(1) wildcard_loop_first)
  then show ?thesis by (simp add: records_Get_def Let_def)
qed

text \<open>
  C35: When no record has exactly the (normalised) name that is looked up, the lookup returns the
  wildcard record of the longest suffix of the name, and nothing when no suffix has a wildcard
  record: the most specific wildcard wins.
\<close>

theorem records_Get_wildcard:
  assumes "recs (normalizeName nm) = None" and "normalizeName nm \<noteq> []"
  shows "records_Get recs nm = Some r \<longleftrightarrow>
    (\<exists>p suf. normalizeName nm = p @ CHR ''.'' # suf \<and> suf \<noteq> [] \<and> recs (''*.'' @ suf) = Some r \<and>
      (\<forall>p' suf'. normalizeName nm = p' @ CHR ''.'' # suf' \<and> length p' < length p \<longrightarrow>
        recs (''*.'' @ suf') = None))"
proof -
  have "records_Get recs nm = wildcard_loop recs (Split (normalizeName nm) CHR ''.'') 1"
    using assms by (simp add: records_Get_def)
  then show ?thesis
    using first_hit_suffix [OF normalizeName_dot [OF assms(2)], of "\<lambda>t. recs (''*.'' @ t)" r]
    by (simp add: wildcard_loop_first)
qed

theorem records_Get_wildcard_witness:
  "records_Get [''*.b.'' \<mapsto> \<lparr>Typ = ''a'', Content = ''10.0.0.1''\<rparr>, ''*.'' \<mapsto> \<lparr>Typ = ''a'', Content = ''10.0.0.2''\<rparr>] ''X.b'' =
     Some \<lparr>Typ = ''a'', Content = ''10.0.0.1''\<rparr>"
proof -
  let ?R = "[''*.b.'' \<mapsto> \<lparr>Typ = ''a'', Content = ''10.0.0.1''\<rparr>, ''*.'' \<mapsto> \<lparr>Typ = ''a'', Content = ''10.0.0.2''\<rparr>]"
  have n: "normalizeName ''X.b'' = ''x.b.''" by code_simp
  have "\<exists>p suf. ''x.b.'' = p @ CHR ''.'' # suf \<and> suf \<noteq> [] \<and> ?R (''*.'' @ suf) = Some \<lparr>Typ = ''a'', Content = ''10.0.0.1''\<rparr> \<and>
      (\<forall>p' suf'. ''x.b.'' = p' @ CHR ''.'' # suf' \<and> length p' < length p \<longrightarrow> ?R (''*.'' @ suf') = None)"
    by (rule exI [of _ "''x''"], rule exI [of _ "''b.''"]) (auto simp: length_Suc_conv less_Suc_eq_0_disj)
  then show ?thesis using records_Get_wildcard [of ?R "''X.b''"] by (simp add: n)
qed

text \<open>
  A record that was added is found again under every spelling of its name (case, surrounding
  white space, final dot), with type and content in lower case.
\<close>

theorem records_Add_Get:
  assumes "normalizeName k = normalizeName n" and "normalizeName n \<noteq> []"
  shows "records_Get (records_Add recs n typ content) k = Some \<lparr>Typ = ToLower typ, Content = ToLower content\<rparr>"
  using assms by (simp add: records_Get_def records_Add_def)

theorem records_Add_Get_witness:
  "records_Get (records_Add Map.empty '' My.Example.com '' ''A'' ''127.0.0.99'') ''my.example.COM.'' =
     Some \<lparr>Typ = ''a'', Content = ''127.0.0.99''\<rparr>"
proof -
  have n: "normalizeName ''my.example.COM.'' = ''my.example.com.''"
    "normalizeName '' My.Example.com '' = ''my.example.com.''"
    "ToLower ''A'' = ''a''" "ToLower ''127.0.0.99'' = ''127.0.0.99''"
    by code_simp+
  then show ?thesis
    using records_Add_Get [of "''my.example.COM.''" "'' My.Example.com ''" Map.empty "''A''" "''127.0.0.99''"]
    by simp
qed

lemma wildcard_loop_upd_other:
  "\<not> HasPrefix n ''*.'' \<Longrightarrow> wildcard_loop (recs(n \<mapsto> r)) parts i = wildcard_loop recs parts i"
proof -
  assume "\<not> HasPrefix n ''*.''"
  then have "(\<lambda>j. (recs(n \<mapsto> r)) (wildcard_key parts j)) = (\<lambda>j. recs (wildcard_key parts j))"
    by (intro ext) (auto simp: str_simps)
  then have "wildcard_loop (recs(n \<mapsto> r)) parts i = Some r' \<longleftrightarrow> wildcard_loop recs parts i = Some r'" for r'
    by (simp only: wildcard_loop_first)
  then show ?thesis by (metis not_Some_eq)
qed

text \<open>
  Adding a record whose name is no wildcard changes no lookup of another name.
\<close>

theorem records_Add_frame:
  assumes "normalizeName k \<noteq> normalizeName n" and "\<not> HasPrefix (normalizeName n) ''*.''"
  shows "records_Get (records_Add recs n typ content) k = records_Get recs k"
  using assms by (auto simp: records_Get_def records_Add_def Let_def wildcard_loop_upd_other split: option.splits)

theorem records_Add_frame_witness:
  "records_Get (records_Add [''a.'' \<mapsto> \<lparr>Typ = ''cname'', Content = ''b''\<rparr>] ''c'' ''a'' ''10.0.0.1'') ''A.'' =
     Some \<lparr>Typ = ''cname'', Content = ''b''\<rparr>"
proof -
  have n: "normalizeName ''A.'' = ''a.''" "normalizeName ''c'' = ''c.''" "\<not> HasPrefix ''c.'' ''*.''"
    by code_simp+
  then have "records_Get [''a.'' \<mapsto> \<lparr>Typ = ''cname'', Content = ''b''\<rparr>] ''A.'' = Some \<lparr>Typ = ''cname'', Content = ''b''\<rparr>"
    by (intro records_Get_exact) simp_all
  then show ?thesis
    using records_Add_frame [of "''A.''" "''c''" "[''a.'' \<mapsto> \<lparr>Typ = ''cname'', Content = ''b''\<rparr>]" "''a''" "''10.0.0.1''"] n
    by simp
qed

section \<open>The store invariant\<close>

text \<open>
  What the rest of the program relies on: there are finitely many records, names are normalised, types are one of the two known
  ones, contents are in lower case and the content of an address record parses as an address.
\<close>

definition record_ok :: "Record \<Rightarrow> bool" where
  "record_ok r \<longleftrightarrow> (Typ r = records_CNAME \<or> Typ r = records_A) \<and> ToLower (Content r) = Content r \<and>
     (Typ r = records_A \<longrightarrow> ParseIP (Content r) \<noteq> None)"

definition store_ok :: "record_store \<Rightarrow> bool" where
  "store_ok recs \<longleftrightarrow> finite (dom recs) \<and>
     (\<forall>n r. recs n = Some r \<longrightarrow> n \<noteq> [] \<and> normalizeName n = n \<and> record_ok r)"

lemma store_ok_empty [simp]: "store_ok Map.empty"
  by (simp add: store_ok_def)

lemma records_Get_in_store: "records_Get recs nm = Some r \<Longrightarrow> \<exists>n. recs n = Some r"
  by (auto simp: records_Get_def Let_def wildcard_loop_first first_hit_def split: option.splits if_splits)

lemma store_okD:
  assumes "store_ok recs"
  shows "finite (dom recs)" "records_Get recs nm = Some r \<Longrightarrow> record_ok r"
  using assms by (auto simp: store_ok_def dest: records_Get_in_store)

lemma load_line_cases:
  obtains (skip) ws where "\<And>recs. load_line recs l = (recs, ws)" "length ws \<le> 1"
  | (add) n r where "\<And>recs. load_line recs l = (recs(n \<mapsto> r), [])" "n \<noteq> []" "normalizeName n = n" "record_ok r"
proof -
  define line where "line = TrimSpace l"
  define fs where "fs = Fields line"
  consider "line = [] \<or> HasPrefix line ''#''" | "length fs \<noteq> 3" | "normalizeName (fs ! 0) = []"
    | "ToLower (fs ! 1) \<noteq> records_CNAME \<and> ToLower (fs ! 1) \<noteq> records_A"
    | "ToLower (fs ! 1) = records_A \<and> ParseIP (ToLower (fs ! 2)) = None"
    | (ok) "\<not> (line = [] \<or> HasPrefix line ''#'')" "length fs = 3" "normalizeName (fs ! 0) \<noteq> []"
      "ToLower (fs ! 1) = records_CNAME \<or> ToLower (fs ! 1) = records_A"
      "\<not> (ToLower (fs ! 1) = records_A \<and> ParseIP (ToLower (fs ! 2)) = None)"
    by blast
  then show thesis
  proof cases
    case ok
    then show thesis
      by (intro add [of "normalizeName (fs ! 0)" "\<lparr>Typ = ToLower (fs ! 1), Content = ToLower (fs ! 2)\<rparr>"])
        (auto simp: load_line_def Let_def record_ok_def line_def fs_def)
  qed (rule skip [of "snd (load_line Map.empty l)"];
      auto simp: load_line_def Let_def line_def fs_def)+
qed

lemma load_line_store_ok: "store_ok recs \<Longrightarrow> store_ok (fst (load_line recs l))"
  by (cases rule: load_line_cases [of l]) (auto simp: store_ok_def)

lemma load_lines_store_ok: "store_ok recs \<Longrightarrow> store_ok (fst (load_lines recs ls))"
proof (induction ls arbitrary: recs)
  case (Cons l ls)
  then have "store_ok (fst (load_line recs l))" by (rule_tac load_line_store_ok)
  then have "store_ok (fst (load_lines (fst (load_line recs l)) ls))" by (rule Cons.IH)
  then show ?case by (simp add: Let_def split_beta)
qed simp

section \<open>Loading a file\<close>

lemma LoadFromFile_ok:
  "store_ok recs \<Longrightarrow> store_ok (fst (LoadFromFile open_file recs filename))"
  using load_lines_store_ok [OF store_ok_empty]
  by (auto simp: LoadFromFile_def Let_def split_beta split: sum.splits)

text \<open>
  Loading keeps the store well formed on every path: a path or open error leaves the store
  as it was, and a file that is opened replaces it by a well-formed one, whatever its lines are and
  even when the scan fails half way.
\<close>

theorem LoadFromFile_store_ok:
  assumes "store_ok recs"
  shows "store_ok (fst (LoadFromFile open_file recs filename))"
  using assms by (rule LoadFromFile_ok)

theorem LoadFromFile_store_ok_witness:
  "store_ok (fst (LoadFromFile (\<lambda>p. Inr \<lparr>rd_data = ''x a 10.0.0.1'', rd_err = Some ''read error''\<rparr>) Map.empty ''records.txt''))"
  using LoadFromFile_store_ok [OF store_ok_empty] .

text \<open>
  Invalid lines are ignored: the records loaded are those of the file without the lines that
  draw a warning, and comment and blank lines draw none.
\<close>

theorem invalid_lines_ignored:
  "fst (load_lines recs ls) = fst (load_lines recs (filter (\<lambda>l. snd (load_line Map.empty l) = []) ls))"
proof (induction ls arbitrary: recs)
  case (Cons l ls)
  show ?case
  proof (cases rule: load_line_cases [of l])
    case (skip ws)
    with Cons show ?thesis by (auto simp: split_beta)
  next
    case (add n r)
    with Cons show ?thesis by (auto simp: split_beta)
  qed
qed simp

text \<open>A records file written line by line.\<close>

fun render_entry :: "string \<times> Record \<Rightarrow> string" where
  "render_entry (n, r) = n @ '' '' @ Typ r @ '' '' @ Content r"

definition token :: "string \<Rightarrow> bool" where
  "token s \<longleftrightarrow> s \<noteq> [] \<and> (\<forall>c \<in> set s. \<not> is_space c)"

fun entry_ok :: "string \<times> Record \<Rightarrow> bool" where
  "entry_ok (n, r) \<longleftrightarrow> token n \<and> hd n \<noteq> CHR ''#'' \<and> record_ok r \<and> token (Content r) \<and>
     line_fits (render_entry (n, r))"

lemma record_ok_Typ: "record_ok r \<Longrightarrow> token (Typ r) \<and> ToLower (Typ r) = Typ r"
  by (auto simp: record_ok_def token_def records_CNAME_def records_A_def is_space_def ToLower_def
      lowerc_def is_upper_def)

lemma load_line_render:
  assumes "entry_ok (n, r)"
  shows "load_line recs (render_entry (n, r)) = (recs(normalizeName n \<mapsto> r), [])"
proof -
  let ?l = "render_entry (n, r)"
  have tok: "token n" "token (Typ r)" "token (Content r)" and r: "record_ok r"
    using assms record_ok_Typ by auto
  have "TrimSpace ?l = ?l" and "?l \<noteq> []" "hd ?l = hd n"
    using tok by (auto simp: TrimSpace_eq_self_iff token_def)
  moreover have "\<not> HasPrefix ?l ''#''"
    using assms calculation by (auto simp: str_simps)
  moreover have "Fields ?l = [n, Typ r, Content r]"
    using tok Fields_three [of n "Typ r" "Content r"] by (simp add: token_def)
  moreover have "normalizeName n \<noteq> []"
    using tok by (simp add: normalizeName_Nil_iff token_def TrimSpace_no_space)
  ultimately show ?thesis
    using r record_ok_Typ [OF r] by (cases r) (simp add: load_line_def Let_def record_ok_def)
qed

lemma load_lines_render:
  "list_all entry_ok es \<Longrightarrow> load_lines recs (map render_entry es) =
    (recs ++ map_of (rev (map (\<lambda>(n, r). (normalizeName n, r)) es)), [])"
proof (induction es arbitrary: recs)
  case (Cons e es)
  obtain n r where e: "e = (n, r)" by (cases e)
  with Cons show ?case
    by (simp add: load_line_render del: render_entry.simps entry_ok.simps)
qed simp

lemma render_entry_scannable:
  assumes "entry_ok e"
  shows "newline \<notin> set (render_entry e) \<and> cr \<notin> set (render_entry e) \<and> line_fits (render_entry e)"
proof -
  obtain n r where e: "e = (n, r)" by (cases e)
  have sp: "is_space newline" "is_space cr" by (simp_all add: is_space_def newline_def cr_def)
  have "newline \<noteq> CHR '' ''" "cr \<noteq> CHR '' ''" by (simp_all add: newline_def cr_def)
  with assms e sp record_ok_Typ [of r] show ?thesis by (auto simp: token_def)
qed

lemma LoadFromFile_render:
  assumes "sanitizeRecordsPath filename = Inr path"
    and "open_file path = Inr \<lparr>rd_data = unlines (map render_entry es), rd_err = None\<rparr>"
    and "list_all entry_ok es"
  shows "LoadFromFile open_file recs filename =
    (map_of (rev (map (\<lambda>(n, r). (normalizeName n, r)) es)), [], None)"
proof -
  have "\<forall>l \<in> set (map render_entry es). newline \<notin> set l \<and> cr \<notin> set l \<and> line_fits l"
    using assms(3) render_entry_scannable by (auto simp: list_all_iff)
  from scan_unlines [OF this] show ?thesis
    using assms by (simp add: LoadFromFile_def load_lines_render)
qed

text \<open>
  C36: Round trip: a file that holds one line per record loads without warning or error as exactly
  these records under their normalised names, a later line replacing an earlier one of the same
  name; nothing of the old store survives.
\<close>

theorem LoadFromFile_roundtrip:
  assumes "sanitizeRecordsPath filename = Inr path"
    and "open_file path = Inr \<lparr>rd_data = unlines (map render_entry es), rd_err = None\<rparr>"
    and "list_all entry_ok es"
  shows "LoadFromFile open_file recs filename =
    (map_of (rev (map (\<lambda>(n, r). (normalizeName n, r)) es)), [], None)"
  using assms by (rule LoadFromFile_render)

theorem LoadFromFile_roundtrip_witness:
  "LoadFromFile (\<lambda>p. Inr \<lparr>rd_data = unlines [''www cname web'', ''www cname db''], rd_err = None\<rparr>) Map.empty ''r.txt'' =
     ([''www.'' \<mapsto> \<lparr>Typ = ''cname'', Content = ''db''\<rparr>], [], None)"
proof -
  let ?es = "[(''www'', \<lparr>Typ = ''cname'', Content = ''web''\<rparr>), (''www'', \<lparr>Typ = ''cname'', Content = ''db''\<rparr>)]"
  have "sanitizeRecordsPath ''r.txt'' = Inr ''r.txt''" by code_simp
  moreover have "list_all entry_ok ?es"
    by (simp add: token_def is_space_def record_ok_def records_CNAME_def records_A_def ToLower_def lowerc_def
        is_upper_def line_fits_def MaxScanTokenSize_def)
  moreover have "normalizeName ''www'' = ''www.''" by code_simp
  ultimately show ?thesis
    using LoadFromFile_roundtrip [of "''r.txt''" "''r.txt''"
        "\<lambda>p. Inr \<lparr>rd_data = unlines [''www cname web'', ''www cname db''], rd_err = None\<rparr>" ?es Map.empty]
    by simp
qed

text \<open>
  A path that passes the check is clean (cleaning it again changes nothing, so checking it
  again returns it), is neither the current nor the root directory, and none of its elements is
  a dot-dot: it cannot leave the directory it starts from.
\<close>

theorem sanitizeRecordsPath_safe:
  assumes "sanitizeRecordsPath path = Inr p"
  shows "p = Clean path \<and> sanitizeRecordsPath p = Inr p \<and> p \<noteq> ''.'' \<and> p \<noteq> ''/'' \<and>
    ''..'' \<notin> set (Split p CHR ''/'')"
proof -
  have p: "p = Clean path" "p \<noteq> ''.''" "p \<noteq> [slash]" "p \<noteq> ''..''" "\<not> HasPrefix p (''..'' @ [slash])"
    using assms by (auto simp: sanitizeRecordsPath_def Let_def split: if_splits)
  have "p \<noteq> []" unfolding p(1) by (rule Clean_not_Nil)
  with p have "sanitizeRecordsPath p = Inr p"
    by (simp add: sanitizeRecordsPath_def Clean_idem)
  moreover have "''..'' \<notin> set (Split p slash)"
    using p by (intro Clean_no_dotdot) auto
  ultimately show ?thesis using p by (simp add: slash_def)
qed

theorem sanitizeRecordsPath_safe_witness:
  "sanitizeRecordsPath ''etc/../conf//records.txt'' = Inr ''conf/records.txt'' \<and>
   ''..'' \<notin> set (Split ''conf/records.txt'' CHR ''/'')"
proof -
  have "sanitizeRecordsPath ''etc/../conf//records.txt'' = Inr ''conf/records.txt''" by code_simp
  with sanitizeRecordsPath_safe [OF this] show ?thesis by blast
qed

end
