(* ===== verification/Dns.thy ===== *)
theory Dns
  imports GoNet
begin

text \<open>
  The data of the \<^verbatim>\<open>github.com/miekg/dns\<close> package that the program builds and reads, and the
  package's functions as a record of parameters. The package is not part of the repository, so
  its functions are never defined here: definitions that call them take a \<open>dnslib\<close>, and what
  the program relies on is the predicate \<open>dns_contract\<close>.
\<close>

section \<open>Messages\<close>

record RR_Header =
  hName :: string
  Rrtype :: u16
  Class :: u16
  Ttl :: u32

text \<open>
  A resource record: the kinds the program and its test stub create, and any other kind an
  upstream sends. An address is a \<^verbatim>\<open>net.IP\<close>, \<open>None\<close> for \<^verbatim>\<open>nil\<close>.
\<close>

datatype RR =
    RR_A RR_Header "ip option"
  | RR_AAAA RR_Header "ip option"
  | RR_CNAME RR_Header string
  | RR_Other RR_Header string

fun Header :: "RR \<Rightarrow> RR_Header" where
  "Header (RR_A h _) = h"
| "Header (RR_AAAA h _) = h"
| "Header (RR_CNAME h _) = h"
| "Header (RR_Other h _) = h"

record Question =
  qName :: string
  Qtype :: u16
  Qclass :: u16

record Msg =
  MsgId :: u16
  Response :: bool
  Opcode :: int
  Authoritative :: bool
  Truncated :: bool
  RecursionDesired :: bool
  RecursionAvailable :: bool
  CheckingDisabled :: bool
  Rcode :: int
  Questions :: "Question list"
  Answer :: "RR list"
  Ns :: "RR list"
  Extra :: "RR list"

text \<open>\<^verbatim>\<open>new(dns.Msg)\<close>: the zero value.\<close>

definition new_Msg :: Msg where
  "new_Msg = \<lparr>MsgId = 0, Response = False, Opcode = 0, Authoritative = False, Truncated = False,
     RecursionDesired = False, RecursionAvailable = False, CheckingDisabled = False, Rcode = 0,
     Questions = [], Answer = [], Ns = [], Extra = []\<rparr>"

lemma new_Msg_simps [simp]:
  "Answer new_Msg = []" "Questions new_Msg = []" "\<not> Authoritative new_Msg" "\<not> Truncated new_Msg"
  "MsgId new_Msg = 0" "Rcode new_Msg = 0"
  by (simp_all add: new_Msg_def)

definition TypeA :: u16 where "TypeA = 1"
definition TypeCNAME :: u16 where "TypeCNAME = 5"
definition TypeAAAA :: u16 where "TypeAAAA = 28"
definition ClassINET :: u16 where "ClassINET = 1"

definition RcodeFormatError :: int where "RcodeFormatError = 1"
definition RcodeServerFailure :: int where "RcodeServerFailure = 2"
definition RcodeNameError :: int where "RcodeNameError = 3"

lemmas dns_consts = TypeA_def TypeCNAME_def TypeAAAA_def ClassINET_def
  RcodeFormatError_def RcodeServerFailure_def RcodeNameError_def

section \<open>The library\<close>

text \<open>
  \<open>SetReply m r\<close> and \<open>SetRcode m r c\<close> are the methods of \<open>m\<close> that turn it into a reply to
  \<open>r\<close>; \<open>SetQuestion m z t\<close> asks \<open>m\<close> for the type \<open>t\<close> of \<open>z\<close>; \<open>MsgLen\<close> is the size
  on the wire; \<open>MsgCopy\<close> the deep copy; \<open>IsDomainName\<close> the syntax check;
  \<open>TypeToString\<close> the table of type names.
\<close>

record dnslib =
  SetReply :: "Msg \<Rightarrow> Msg \<Rightarrow> Msg"
  SetRcode :: "Msg \<Rightarrow> Msg \<Rightarrow> int \<Rightarrow> Msg"
  SetQuestion :: "Msg \<Rightarrow> string \<Rightarrow> u16 \<Rightarrow> Msg"
  MsgCopy :: "Msg \<Rightarrow> Msg"
  MsgLen :: "Msg \<Rightarrow> nat"
  IsDomainName :: "string \<Rightarrow> bool"
  TypeToString :: "u16 \<Rightarrow> string option"

text \<open>
  The documented behaviour the program relies on: a reply carries the request's ID, is marked as a
  response, repeats the first question and leaves the sections and the remaining flags of the
  message it is called on alone; \<^verbatim>\<open>SetReply\<close> sets the response code to success and
  \<^verbatim>\<open>SetRcode\<close> to the given one; a copy is equal to its original.
\<close>

definition reply_to :: "Msg \<Rightarrow> Msg \<Rightarrow> Msg \<Rightarrow> bool" where
  "reply_to m r m' \<longleftrightarrow>
     MsgId m' = MsgId r \<and> Response m' \<and>
     Questions m' = (if Questions r = [] then Questions m else [hd (Questions r)]) \<and>
     Authoritative m' = Authoritative m \<and> Truncated m' = Truncated m \<and>
     RecursionAvailable m' = RecursionAvailable m \<and>
     Answer m' = Answer m \<and> Ns m' = Ns m \<and> Extra m' = Extra m"

definition dns_contract :: "dnslib \<Rightarrow> bool" where
  "dns_contract L \<longleftrightarrow>
     (\<forall>m r. reply_to m r (SetReply L m r) \<and> Rcode (SetReply L m r) = 0) \<and>
     (\<forall>m r c. reply_to m r (SetRcode L m r c) \<and> Rcode (SetRcode L m r c) = c) \<and>
     (\<forall>m. MsgCopy L m = m)"

lemma reply_toD:
  assumes "reply_to m r m'"
  shows "MsgId m' = MsgId r" "Response m'" "Authoritative m' = Authoritative m"
    "Truncated m' = Truncated m" "RecursionAvailable m' = RecursionAvailable m"
    "Answer m' = Answer m" "Ns m' = Ns m" "Extra m' = Extra m"
    "Questions r \<noteq> [] \<Longrightarrow> Questions m' = [hd (Questions r)]"
  using assms by (auto simp: reply_to_def)

lemma dns_contractD:
  assumes "dns_contract L"
  shows "reply_to m r (SetReply L m r)" "Rcode (SetReply L m r) = 0"
    "reply_to m r (SetRcode L m r c)" "Rcode (SetRcode L m r c) = c"
    "MsgCopy L m = m"
  using assms by (auto simp: dns_contract_def)

lemmas contract_simps = reply_toD [OF dns_contractD(1)] reply_toD [OF dns_contractD(3)]
  dns_contractD(2,4,5)

section \<open>An instance of the contract\<close>

text \<open>
  A library that satisfies the contract, for evaluating the model on concrete inputs. Its message
  size counts a fixed header and a fixed size per record, and its domain syntax check accepts
  letters, digits, hyphens, underscores and dots.
\<close>

definition rr_size :: "RR \<Rightarrow> nat" where
  "rr_size r = length (hName (Header r)) + 16"

definition sample_reply :: "Msg \<Rightarrow> Msg \<Rightarrow> int \<Rightarrow> Msg" where
  "sample_reply m r c = m\<lparr>MsgId := MsgId r, Response := True, Opcode := Opcode r,
     RecursionDesired := RecursionDesired r, CheckingDisabled := CheckingDisabled r, Rcode := c,
     Questions := (case Questions r of [] \<Rightarrow> Questions m | q # _ \<Rightarrow> [q])\<rparr>"

definition sample_name_char :: "char \<Rightarrow> bool" where
  "sample_name_char c \<longleftrightarrow> (let n = (of_char c :: nat) in
     (48 \<le> n \<and> n \<le> 57) \<or> (65 \<le> n \<and> n \<le> 90) \<or> (97 \<le> n \<and> n \<le> 122) \<or>
     c = CHR ''-'' \<or> c = CHR ''_'' \<or> c = CHR ''.'')"

definition sample_lib :: dnslib where
  "sample_lib = \<lparr>
     SetReply = (\<lambda>m r. sample_reply m r 0),
     SetRcode = sample_reply,
     SetQuestion = (\<lambda>m z t. m\<lparr>MsgId := 1, RecursionDesired := True,
        Questions := [\<lparr>qName = z, Qtype = t, Qclass = ClassINET\<rparr>]\<rparr>),
     MsgCopy = (\<lambda>m. m),
     MsgLen = (\<lambda>m. 12 + sum_list (map rr_size (Answer m @ Ns m @ Extra m))),
     IsDomainName = list_all sample_name_char,
     TypeToString = (\<lambda>t. if t = TypeA then Some ''A'' else if t = TypeCNAME then Some ''CNAME''
        else if t = TypeAAAA then Some ''AAAA'' else None)\<rparr>"

lemma sample_lib_contract: "dns_contract sample_lib"
  by (auto simp: dns_contract_def reply_to_def sample_lib_def sample_reply_def
      split: list.splits)

lemmas sample_eval = sample_lib_def sample_reply_def sample_name_char_def rr_size_def new_Msg_def dns_consts

end
