(* ===== verification/DnsCache.thy ===== *)
theory DnsCache
  imports Dns
begin

text \<open>
  \<^verbatim>\<open>pkg/dnscache/dnscache.go\<close>: the TTL cache of responses. The cache holds pointers to messages
  that other code keeps and changes, so messages live in a heap and the cache maps a key to an
  address and an expiry time. Times are nanoseconds; the lock makes each operation atomic.
\<close>

section \<open>Data\<close>

type_synonym heap = "Msg list"
type_synonym ref = nat

definition alloc :: "heap \<Rightarrow> Msg \<Rightarrow> ref \<times> heap" where
  "alloc h m = (length h, h @ [m])"

record CacheEntry =
  EntryMsg :: ref
  ExpiresAt :: int

type_synonym DNSCache = "string \<rightharpoonup> CacheEntry"

section \<open>Operations\<close>

definition cache_New :: DNSCache where
  "cache_New = Map.empty"

text \<open>
  \<^verbatim>\<open>Get\<close> at the time \<open>now\<close>. The expired branch logs the name of the first question of the cached
  message, which panics when the message has no question.
\<close>

definition cache_Get :: "heap \<Rightarrow> DNSCache \<Rightarrow> int \<Rightarrow> string \<Rightarrow> ref option outcome" where
  "cache_Get h c now key =
     (case c key of
        None \<Rightarrow> Return None
      | Some entry \<Rightarrow>
          if now > ExpiresAt entry then
            (case Questions (h ! EntryMsg entry) of
               [] \<Rightarrow> Panic
             | q # _ \<Rightarrow> Return None)
          else Return (Some (EntryMsg entry)))"

definition second :: i64 where "second = 1000000000"

text \<open>The life time of a message: the TTL of its first answer, or a minute, as a 64-bit duration.\<close>

definition msg_ttl :: "Msg \<Rightarrow> i64" where
  "msg_ttl m =
     (case Answer m of
        [] \<Rightarrow> 60 * second
      | rr # _ \<Rightarrow> ucast (Ttl (Header rr)) * second)"

text \<open>\<^verbatim>\<open>Set\<close> reads the answers of the message first, so it panics on a nil message.\<close>

definition cache_Set :: "heap \<Rightarrow> DNSCache \<Rightarrow> int \<Rightarrow> string \<Rightarrow> ref option \<Rightarrow> DNSCache outcome" where
  "cache_Set h c now key msg =
     (case msg of
        None \<Rightarrow> Panic
      | Some r \<Rightarrow> Return (c(key \<mapsto> \<lparr>EntryMsg = r, ExpiresAt = now + sint (msg_ttl (h ! r))\<rparr>)))"

definition cache_Clear :: "DNSCache \<Rightarrow> DNSCache" where
  "cache_Clear c = Map.empty"

section \<open>The contract of a TTL cache\<close>

text \<open>
  What the request handler relies on: a stored value is found until its life time is over and not
  after it, storing a value touches no other key, and a cleared cache is empty. The client's
  lemmas follow from these laws alone.
\<close>

locale ttl_cache =
  fixes lookup :: "'c \<Rightarrow> int \<Rightarrow> 'k \<Rightarrow> 'v option"
    and store :: "'c \<Rightarrow> int \<Rightarrow> 'k \<Rightarrow> 'v \<Rightarrow> 'c"
    and clear :: "'c \<Rightarrow> 'c"
    and life :: "'v \<Rightarrow> int"
  assumes lookup_store_same:
      "lookup (store c t k v) t' k = (if t' \<le> t + life v then Some v else None)"
    and lookup_store_other: "k' \<noteq> k \<Longrightarrow> lookup (store c t k v) t' k' = lookup c t' k'"
    and lookup_clear: "lookup (clear c) t k = None"
begin

fun stores :: "'c \<Rightarrow> (int \<times> 'k \<times> 'v) list \<Rightarrow> 'c" where
  "stores c [] = c"
| "stores c ((t, k, v) # ops) = stores (store c t k v) ops"

lemma stores_append: "stores c (ops @ ops') = stores (stores c ops) ops'"
  by (induction c ops rule: stores.induct) auto

lemma lookup_stores_other:
  "\<forall>(t, k', v) \<in> set ops. k' \<noteq> k \<Longrightarrow> lookup (stores c ops) t k = lookup c t k"
  by (induction c ops rule: stores.induct) (auto simp: lookup_store_other)

text \<open>The last store of a key decides what a lookup finds.\<close>

lemma lookup_last_store:
  assumes "\<forall>(t, k', v) \<in> set ops'. k' \<noteq> k"
  shows "lookup (stores c (ops @ (t, k, v) # ops')) t' k = (if t' \<le> t + life v then Some v else None)"
  using assms by (simp add: stores_append lookup_stores_other lookup_store_same)

lemma lookup_hit_was_stored:
  assumes "lookup (stores (clear c) ops) t' k = Some v"
  shows "\<exists>t. (t, k, v) \<in> set ops \<and> t' \<le> t + life v"
  using assms
proof (induction ops rule: rev_induct)
  case Nil
  then show ?case by (simp add: lookup_clear)
next
  case (snoc op ops)
  obtain t k' v' where op: "op = (t, k', v')" by (cases op)
  with snoc show ?case
    by (cases "k' = k") (auto simp: stores_append lookup_store_same lookup_store_other split: if_splits)
qed

end

text \<open>The cache of the program satisfies the contract, on the non-panicking results of its operations.\<close>

definition cache_hit :: "DNSCache \<Rightarrow> int \<Rightarrow> string \<Rightarrow> ref option" where
  "cache_hit c now key =
     (case c key of None \<Rightarrow> None | Some e \<Rightarrow> if now > ExpiresAt e then None else Some (EntryMsg e))"

definition cache_put :: "heap \<Rightarrow> DNSCache \<Rightarrow> int \<Rightarrow> string \<Rightarrow> ref \<Rightarrow> DNSCache" where
  "cache_put h c now key r = c(key \<mapsto> \<lparr>EntryMsg = r, ExpiresAt = now + sint (msg_ttl (h ! r))\<rparr>)"

lemma cache_Set_put: "cache_Set h c now key (Some r) = Return (cache_put h c now key r)"
  by (simp add: cache_Set_def cache_put_def)

lemma cache_Get_hit: "cache_Get h c now key = Return x \<Longrightarrow> x = cache_hit c now key"
  by (auto simp: cache_Get_def cache_hit_def split: option.splits if_splits list.splits)

lemma cache_hit_Get: "cache_hit c now key = Some r \<Longrightarrow> cache_Get h c now key = Return (Some r)"
  by (auto simp: cache_Get_def cache_hit_def split: option.splits if_splits)

interpretation dnscache: ttl_cache cache_hit "cache_put h" cache_Clear "\<lambda>r. sint (msg_ttl (h ! r))" for h
  by unfold_locales (auto simp: cache_hit_def cache_put_def cache_Clear_def)

section \<open>Durations\<close>

lemma sint_small: "n < 2 ^ 63 \<Longrightarrow> sint (of_nat n :: i64) = int n"
  by (simp add: signed_of_nat signed_take_bit_int_eq_self)

lemma msg_ttl_value:
  "sint (msg_ttl m) =
     (case Answer m of [] \<Rightarrow> 60 | rr # _ \<Rightarrow> int (unat (Ttl (Header rr)))) * 1000000000"
proof (cases "Answer m")
  case Nil
  then show ?thesis by (simp add: msg_ttl_def second_def)
next
  case (Cons rr rrs)
  let ?t = "Ttl (Header rr)"
  have "ucast ?t * second = (of_nat (unat ?t * 1000000000) :: i64)"
    by (simp add: second_def)
  moreover have "unat ?t * 1000000000 < (2::nat) ^ 63"
    using unsigned_less [of ?t, where 'a = nat] by simp
  ultimately have "sint (ucast ?t * second) = int (unat ?t * 1000000000)"
    by (simp only: sint_small)
  with Cons show ?thesis by (simp add: msg_ttl_def)
qed

lemma msg_ttl_nonneg: "0 \<le> sint (msg_ttl m)"
  by (simp add: msg_ttl_value split: list.split)

text \<open>
  C40: The life time of an entry never overflows: for every 32-bit TTL the 64-bit product of TTL
  and second is the exact number of nanoseconds, so the expiry lies in the future by exactly the
  TTL of the first answer, or by one minute for a message without answers.
\<close>

theorem msg_ttl_exact:
  "sint (msg_ttl m) =
     (case Answer m of [] \<Rightarrow> 60 | rr # _ \<Rightarrow> int (unat (Ttl (Header rr)))) * 1000000000"
  by (rule msg_ttl_value)

end
