(* ===== verification/Forward.thy ===== *)
theory Forward
  imports Dns
begin

text \<open>
  \<^verbatim>\<open>pkg/forward/forward.go\<close>: proxying a message to the configured upstream servers. The
  exchange of one message with one server is the DNS library's \<^verbatim>\<open>Client.Exchange\<close>, a parameter
  that may change the state \<open>'n\<close> of the outside world: every call can answer differently.
\<close>

section \<open>Data\<close>

record dnsClient =
  ClientNet :: string
  Timeout :: int

record Forwarder =
  upstreamServers :: "string list"
  udpClient :: dnsClient
  tcpClient :: dnsClient

text \<open>\<open>X client r server n\<close> is the error or the (possibly nil) reply, and the world afterwards.\<close>

type_synonym 'n exchanger =
  "dnsClient \<Rightarrow> Msg \<Rightarrow> string \<Rightarrow> 'n \<Rightarrow> (goerror + Msg option) \<times> 'n"

section \<open>Operations\<close>

definition forward_New :: "string list \<Rightarrow> Forwarder" where
  "forward_New servers = \<lparr>upstreamServers = servers,
     udpClient = \<lparr>ClientNet = ''udp'', Timeout = 5 * 1000000000\<rparr>,
     tcpClient = \<lparr>ClientNet = ''tcp'', Timeout = 5 * 1000000000\<rparr>\<rparr>"

definition exchange ::
    "'n exchanger \<Rightarrow> Forwarder \<Rightarrow> string \<Rightarrow> Msg \<Rightarrow> 'n \<Rightarrow> (goerror + Msg option) \<times> 'n" where
  "exchange X f server r n =
     (case X (udpClient f) r server n of
        (Inl err, n1) \<Rightarrow> (Inl err, n1)
      | (Inr msg, n1) \<Rightarrow>
          if msg = None \<or> \<not> Truncated (the msg) then (Inr msg, n1)
          else (case X (tcpClient f) r server n1 of
              (Inl tcpErr, n2) \<Rightarrow> (Inr msg, n2)
            | (Inr tcpMsg, n2) \<Rightarrow> (Inr tcpMsg, n2)))"

text \<open>The loop over the servers; the result is the Go pair of a message and an error.\<close>

fun forward_loop ::
    "'n exchanger \<Rightarrow> Forwarder \<Rightarrow> Msg \<Rightarrow> string list \<Rightarrow> goerror option \<Rightarrow> 'n \<Rightarrow>
     (Msg option \<times> goerror option) \<times> 'n" where
  "forward_loop X f r [] lastErr n = ((None, lastErr), n)"
| "forward_loop X f r (server # servers) lastErr n =
     (case exchange X f server r n of
        (Inr msg, n') \<Rightarrow> ((msg, None), n')
      | (Inl err, n') \<Rightarrow> forward_loop X f r servers (Some err) n')"

definition Forward ::
    "'n exchanger \<Rightarrow> Forwarder \<Rightarrow> Msg \<Rightarrow> 'n \<Rightarrow> (Msg option \<times> goerror option) \<times> 'n" where
  "Forward X f r n = forward_loop X f r (upstreamServers f) None n"

section \<open>Order of the attempts\<close>

text \<open>\<open>all_fail\<close>: the exchanges with these servers, one after the other, all fail; the last error.\<close>

inductive all_fail ::
    "'n exchanger \<Rightarrow> Forwarder \<Rightarrow> Msg \<Rightarrow> 'n \<Rightarrow> string list \<Rightarrow> goerror option \<Rightarrow> 'n \<Rightarrow> goerror option \<Rightarrow> bool"
  for X f r where
  all_fail_Nil: "all_fail X f r n [] e n e"
| all_fail_Cons: "exchange X f s r n = (Inl e', n1) \<Longrightarrow> all_fail X f r n1 ss (Some e') n2 e2 \<Longrightarrow>
     all_fail X f r n (s # ss) e n2 e2"

inductive_simps all_fail_Nil_iff: "all_fail X f r n [] e n' e'"
inductive_simps all_fail_Cons_iff: "all_fail X f r n (s # ss) e n' e'"

text \<open>\<open>answered\<close>: after failures, one of the servers answers, and the rest is not asked.\<close>

inductive answered ::
    "'n exchanger \<Rightarrow> Forwarder \<Rightarrow> Msg \<Rightarrow> 'n \<Rightarrow> string list \<Rightarrow> Msg option \<Rightarrow> 'n \<Rightarrow> bool"
  for X f r where
  answered_here: "exchange X f s r n = (Inr m, n') \<Longrightarrow> answered X f r n (s # ss) m n'"
| answered_later: "exchange X f s r n = (Inl e, n1) \<Longrightarrow> answered X f r n1 ss m n' \<Longrightarrow>
     answered X f r n (s # ss) m n'"

inductive_simps answered_Nil_iff: "answered X f r n [] m n'"
inductive_simps answered_Cons_iff: "answered X f r n (s # ss) m n'"

lemma forward_loop_cases:
  "forward_loop X f r ss e n = ((m, e'), n') \<longleftrightarrow>
     (m = None \<and> all_fail X f r n ss e n' e') \<or> (e' = None \<and> answered X f r n ss m n')"
proof (induction ss arbitrary: e n)
  case Nil
  then show ?case by (auto simp: all_fail_Nil_iff answered_Nil_iff)
next
  case (Cons s ss)
  obtain res n1 where ex: "exchange X f s r n = (res, n1)" by (cases "exchange X f s r n")
  with Cons show ?case
    by (cases res) (auto simp: all_fail_Cons_iff answered_Cons_iff)
qed

lemma answered_split:
  "answered X f r n ss m n' \<Longrightarrow> \<exists>pre s post n1 e. ss = pre @ s # post \<and>
     all_fail X f r n pre None n1 e \<and> exchange X f s r n1 = (Inr m, n')"
proof -
  assume "answered X f r n ss m n'"
  then have "\<exists>pre s post n1 e'. ss = pre @ s # post \<and>
     all_fail X f r n pre e0 n1 e' \<and> exchange X f s r n1 = (Inr m, n')" for e0
  proof (induction arbitrary: e0 rule: answered.induct)
    case (answered_here s n m n' ss)
    then show ?case by (metis all_fail_Nil append_Nil)
  next
    case (answered_later s n e n1 ss m n')
    then obtain pre t post n2 e' where "ss = pre @ t # post" "all_fail X f r n1 pre (Some e) n2 e'"
      "exchange X f t r n2 = (Inr m, n')" by blast
    with answered_later.hyps(1) show ?case by (metis all_fail_Cons append_Cons)
  qed
  then show ?thesis by blast
qed

lemma all_fail_error: "all_fail X f r n ss e n' e' \<Longrightarrow> ss \<noteq> [] \<or> e \<noteq> None \<Longrightarrow> e' \<noteq> None"
  by (induction rule: all_fail.induct) auto

text \<open>
  C38: Forwarding without an error returns the reply of the first server, in configured order, whose
  exchange succeeds: every server before it was asked and failed, and none after it is asked.
\<close>

theorem Forward_first_success:
  assumes "Forward X f r n = ((m, None), n')" and "upstreamServers f \<noteq> []"
  shows "\<exists>pre s post n1 e. upstreamServers f = pre @ s # post \<and>
    all_fail X f r n pre None n1 e \<and> exchange X f s r n1 = (Inr m, n')"
proof -
  have "answered X f r n (upstreamServers f) m n'"
    using assms by (auto simp: Forward_def forward_loop_cases dest: all_fail_error)
  then show ?thesis by (rule answered_split)
qed

text \<open>
  An exchanger for concrete runs: the servers that have an answer send it with the ID and the
  questions of the request, every other server fails; the state counts the exchanges.
\<close>

definition sample_exchanger :: "(string \<Rightarrow> Msg option) \<Rightarrow> nat exchanger" where
  "sample_exchanger answers c r server n =
     (case answers server of
        None \<Rightarrow> (Inl (''no reply from '' @ server), Suc n)
      | Some m \<Rightarrow> (Inr (Some (m\<lparr>MsgId := MsgId r, Questions := Questions r\<rparr>)), Suc n))"

lemmas sample_forward_eval = Forward_def forward_New_def exchange_def sample_exchanger_def

theorem Forward_first_success_witness:
  "\<exists>pre s post n1 e. upstreamServers (forward_New [''a'', ''b'', ''c'']) = pre @ s # post \<and>
     all_fail (sample_exchanger [''b'' \<mapsto> new_Msg]) (forward_New [''a'', ''b'', ''c'']) new_Msg 0 pre None n1 e \<and>
     exchange (sample_exchanger [''b'' \<mapsto> new_Msg]) (forward_New [''a'', ''b'', ''c'']) s new_Msg n1 =
       (Inr (Some new_Msg), 2)"
proof (rule Forward_first_success)
  show "Forward (sample_exchanger [''b'' \<mapsto> new_Msg]) (forward_New [''a'', ''b'', ''c'']) new_Msg 0 =
      ((Some new_Msg, None), 2)"
    by (simp add: sample_forward_eval new_Msg_def)
qed (simp add: forward_New_def)

text \<open>
  Forwarding reports an error exactly when every configured server was asked, in order, and
  failed; the error is the last one.
\<close>

theorem Forward_error_iff:
  "(\<exists>m. Forward X f r n = ((m, Some e), n')) \<longleftrightarrow>
    upstreamServers f \<noteq> [] \<and> all_fail X f r n (upstreamServers f) None n' (Some e)"
  by (auto simp: Forward_def forward_loop_cases all_fail_Nil_iff)

text \<open>
  With no upstream server configured the result is neither a message nor an error.
\<close>

theorem Forward_no_upstream: "upstreamServers f = [] \<Longrightarrow> Forward X f r n = ((None, None), n)"
  by (simp add: Forward_def)

theorem Forward_no_upstream_witness:
  "Forward (sample_exchanger Map.empty) (forward_New []) new_Msg 0 = ((None, None), 0)"
  by (rule Forward_no_upstream) (simp add: forward_New_def)

section \<open>One exchange\<close>

text \<open>
  A reply that arrives truncated over UDP is asked for again over TCP. The TCP reply replaces
  it; when the TCP exchange fails the truncated reply is used, so a truncated reply never makes
  the exchange fail. A reply that is not truncated is used as it is and TCP is not tried.
\<close>

theorem exchange_truncation:
  assumes "X (udpClient f) r server n = (Inr (Some m), n1)"
  shows "exchange X f server r n =
    (if \<not> Truncated m then (Inr (Some m), n1)
     else (case X (tcpClient f) r server n1 of
         (Inl e, n2) \<Rightarrow> (Inr (Some m), n2)
       | (Inr tm, n2) \<Rightarrow> (Inr tm, n2)))"
  using assms by (simp add: exchange_def)

theorem exchange_truncation_witness:
  "exchange (\<lambda>c r s n. if ClientNet c = ''udp'' then (Inr (Some (new_Msg\<lparr>Truncated := True\<rparr>)), n) else (Inr (Some new_Msg), n + 1))
     (forward_New [''a'']) ''a'' new_Msg (0::nat) = (Inr (Some new_Msg), 1)"
  by (subst exchange_truncation [where m = "new_Msg\<lparr>Truncated := True\<rparr>" and ?n1.0 = 0])
    (simp_all add: forward_New_def)

text \<open>The library promises a message where there is no error.\<close>

definition never_nil :: "'n exchanger \<Rightarrow> bool" where
  "never_nil X \<longleftrightarrow> (\<forall>c r s n n'. X c r s n \<noteq> (Inr None, n'))"

lemma exchange_never_nil: "never_nil X \<Longrightarrow> exchange X f s r n \<noteq> (Inr None, n')"
  by (auto simp: never_nil_def exchange_def split: prod.splits sum.splits if_splits)

lemma Forward_never_nil:
  assumes "never_nil X" "upstreamServers f \<noteq> []"
  obtains (reply) m n' where "Forward X f r n = ((Some m, None), n')"
  | (failed) e n' where "Forward X f r n = ((None, Some e), n')"
proof -
  obtain m e n' where fw: "Forward X f r n = ((m, e), n')" by (metis prod.exhaust)
  then have "(m = None \<and> e \<noteq> None) \<or> (e = None \<and> answered X f r n (upstreamServers f) m n')"
    using assms(2) by (auto simp: Forward_def forward_loop_cases dest: all_fail_error)
  then show thesis
  proof
    assume "e = None \<and> answered X f r n (upstreamServers f) m n'"
    then have "m \<noteq> None"
      using answered_split exchange_never_nil [OF assms(1)] by (metis (no_types, lifting))
    with \<open>e = None \<and> _\<close> fw reply show thesis by auto
  qed (use fw failed in auto)
qed


section \<open>Properties of the replies\<close>

text \<open>
  What the client checks of every reply it hands out carries over to the replies of \<^verbatim>\<open>Forward\<close>:
  the client compares the ID of a reply with that of the request; a server that follows the
  protocol repeats the question.
\<close>

definition replies_satisfy :: "(Msg \<Rightarrow> Msg \<Rightarrow> bool) \<Rightarrow> 'n exchanger \<Rightarrow> bool" where
  "replies_satisfy P X \<longleftrightarrow> (\<forall>c r s n m n'. X c r s n = (Inr (Some m), n') \<longrightarrow> P r m)"

definition id_checked :: "'n exchanger \<Rightarrow> bool" where
  "id_checked X \<longleftrightarrow> replies_satisfy (\<lambda>r m. MsgId m = MsgId r) X"

definition question_echoed :: "'n exchanger \<Rightarrow> bool" where
  "question_echoed X \<longleftrightarrow> replies_satisfy (\<lambda>r m. Questions r \<noteq> [] \<longrightarrow> Questions m \<noteq> []) X"

lemma exchange_satisfies:
  assumes "replies_satisfy P X" "exchange X f s r n = (Inr (Some m), n')"
  shows "P r m"
proof -
  have "\<exists>c n1 n2. X c r s n1 = (Inr (Some m), n2)"
    using assms(2) by (auto simp: exchange_def split: prod.splits sum.splits if_splits)
  then show ?thesis using assms(1) unfolding replies_satisfy_def by blast
qed

lemma Forward_satisfies:
  assumes "replies_satisfy P X" "Forward X f r n = ((Some m, e), n')"
  shows "P r m"
proof -
  have "answered X f r n (upstreamServers f) (Some m) n'"
    using assms(2) by (auto simp: Forward_def forward_loop_cases)
  from answered_split [OF this] show ?thesis using exchange_satisfies [OF assms(1)] by blast
qed

lemma sample_exchanger_ok:
  "never_nil (sample_exchanger answers)" "id_checked (sample_exchanger answers)"
  "question_echoed (sample_exchanger answers)"
  by (auto simp: never_nil_def id_checked_def question_echoed_def replies_satisfy_def sample_exchanger_def
      split: option.splits)

end
