(* ===== verification/DomainSet.thy ===== *)
theory DomainSet
  imports GoStrings
begin

text \<open>
  \<^verbatim>\<open>pkg/filtering/domainset.go\<close>: sets of exact and wildcard domains and the test whether a name
  matches one. A Go map to empty structs is a set; a nil receiver is \<open>None\<close>.
\<close>

section \<open>Data and operations\<close>

record DomainSet =
  Exact :: "string set"
  Wildcards :: "string set"

definition NewDomainSet :: DomainSet where
  "NewDomainSet = \<lparr>Exact = {}, Wildcards = {}\<rparr>"

definition AddExact :: "DomainSet \<Rightarrow> string \<Rightarrow> DomainSet" where
  "AddExact s domain = (if domain = [] then s else s\<lparr>Exact := insert domain (Exact s)\<rparr>)"

definition AddWildcard :: "DomainSet \<Rightarrow> string \<Rightarrow> DomainSet" where
  "AddWildcard s domain = (if domain = [] then s else s\<lparr>Wildcards := insert domain (Wildcards s)\<rparr>)"

definition Merge :: "DomainSet \<Rightarrow> DomainSet option \<Rightarrow> DomainSet" where
  "Merge s other =
     (case other of
        None \<Rightarrow> s
      | Some d \<Rightarrow> s\<lparr>Exact := Exact s \<union> Exact d, Wildcards := Wildcards s \<union> Wildcards d\<rparr>)"

definition normalizeLookupName :: "string \<Rightarrow> string" where
  "normalizeLookupName name =
     (let trimmed = TrimSpace name in
      if trimmed = [] then []
      else
        let trimmed = TrimSuffix trimmed ''.'' in
        if trimmed = [] then [] else ToLower trimmed)"

text \<open>The loop that \<^verbatim>\<open>matchesWildcard\<close> and \<^verbatim>\<open>matchesSuffix\<close> share, from index \<open>i\<close>.\<close>

function suffix_loop :: "string list \<Rightarrow> string set \<Rightarrow> nat \<Rightarrow> bool" where
  "suffix_loop labels domains i =
     (if i < length labels then
        (if Join (drop i labels) ''.'' \<in> domains then True else suffix_loop labels domains (Suc i))
      else False)"
  by pat_completeness auto
termination
  by (relation "measure (\<lambda>(l, d, i). length l - i)") auto

declare suffix_loop.simps [simp del]

definition matchesWildcard :: "string list \<Rightarrow> string set \<Rightarrow> bool" where
  "matchesWildcard labels wildcards = suffix_loop labels wildcards 1"

definition matchesSuffix :: "string list \<Rightarrow> string set \<Rightarrow> bool" where
  "matchesSuffix labels exact = suffix_loop labels exact 1"

definition Matches :: "DomainSet option \<Rightarrow> string \<Rightarrow> bool \<Rightarrow> bool" where
  "Matches set_ptr name includeSubdomains =
     (case set_ptr of
        None \<Rightarrow> False
      | Some s \<Rightarrow>
          let normalised = normalizeLookupName name in
          if normalised = [] then False
          else if normalised \<in> Exact s then True
          else
            let labels = Split normalised CHR ''.'' in
            if matchesWildcard labels (Wildcards s) then True
            else if \<not> includeSubdomains then False
            else matchesSuffix labels (Exact s))"

section \<open>Names\<close>

lemma normalizeLookupName_lower: "ToLower (normalizeLookupName n) = normalizeLookupName n"
  by (simp add: normalizeLookupName_def Let_def)

lemma TrimSuffix_ToLower: "TrimSuffix (ToLower s) ''.'' = ToLower (TrimSuffix s ''.'')"
proof (cases s rule: rev_cases)
  case (snoc t c)
  have "lowerc c = CHR ''.'' \<longleftrightarrow> c = CHR ''.''"
  proof
    assume "lowerc c = CHR ''.''"
    then have "of_char (lowerc c) = (46::nat)" by simp
    then have "of_char c = (of_char CHR ''.'' :: nat)"
      by (simp add: of_char_lowerc is_upper_def split: if_splits)
    then show "c = CHR ''.''" by (simp only: of_char_eq_iff)
  qed (simp add: lowerc_def is_upper_def)
  with snoc show ?thesis
    by (simp add: TrimSuffix_def HasSuffix_one_iff ToLower_def)
qed (simp add: TrimSuffix_def HasSuffix_def)

lemma normalizeLookupName_ToLower: "normalizeLookupName (ToLower n) = normalizeLookupName n"
  by (simp add: normalizeLookupName_def Let_def TrimSpace_ToLower TrimSuffix_ToLower)

section \<open>Matching\<close>

lemma suffix_loop_iff:
  "suffix_loop labels domains i \<longleftrightarrow> (\<exists>j. i \<le> j \<and> j < length labels \<and> Join (drop j labels) ''.'' \<in> domains)"
proof (induction labels domains i rule: suffix_loop.induct)
  case (1 labels domains i)
  show ?case
  proof (cases "i < length labels \<and> Join (drop i labels) ''.'' \<notin> domains")
    case True
    with 1 have "suffix_loop labels domains i \<longleftrightarrow>
        (\<exists>j. Suc i \<le> j \<and> j < length labels \<and> Join (drop j labels) ''.'' \<in> domains)"
      by (subst suffix_loop.simps) simp
    with True show ?thesis by (metis Suc_leD Suc_leI le_neq_implies_less)
  next
    case False
    then show ?thesis by (subst suffix_loop.simps) (auto intro: le_refl)
  qed
qed

text \<open>\<open>below_any n ds\<close>: the name is a proper subdomain of one of the domains.\<close>

definition below_any :: "string \<Rightarrow> string set \<Rightarrow> bool" where
  "below_any n ds \<longleftrightarrow> (\<exists>p d. n = p @ CHR ''.'' # d \<and> d \<in> ds)"

lemma suffix_loop_Split: "suffix_loop (Split n CHR ''.'') ds (Suc 0) \<longleftrightarrow> below_any n ds"
  using label_suffixes [of n "CHR ''.''" "\<lambda>d. d \<in> ds"]
  by (simp add: suffix_loop_iff below_any_def conj_assoc)

lemma below_any_union: "below_any n (A \<union> B) \<longleftrightarrow> below_any n A \<or> below_any n B"
  by (auto simp: below_any_def)

lemma below_any_empty [simp]: "\<not> below_any n {}"
  by (simp add: below_any_def)

lemma Matches_iff:
  "Matches (Some s) name sub \<longleftrightarrow>
     normalizeLookupName name \<noteq> [] \<and>
     (normalizeLookupName name \<in> Exact s \<or> below_any (normalizeLookupName name) (Wildcards s) \<or>
      (sub \<and> below_any (normalizeLookupName name) (Exact s)))"
  by (auto simp: Matches_def Let_def matchesWildcard_def matchesSuffix_def suffix_loop_Split)

text \<open>
  C34: What a domain set matches: the exact domains themselves, every proper subdomain of a wildcard
  domain, and, when subdomains are included, every proper subdomain of an exact domain. Nothing
  else, and never the empty name; a wildcard does not match its own domain.
\<close>

theorem Matches_spec:
  "Matches (Some s) name sub \<longleftrightarrow>
     normalizeLookupName name \<noteq> [] \<and>
     (normalizeLookupName name \<in> Exact s \<or> below_any (normalizeLookupName name) (Wildcards s) \<or>
      (sub \<and> below_any (normalizeLookupName name) (Exact s)))"
  by (rule Matches_iff)

lemma Matches_None [simp]: "\<not> Matches None name sub"
  by (simp add: Matches_def)

lemma Matches_cong: "normalizeLookupName a = normalizeLookupName b \<Longrightarrow> Matches s a sub = Matches s b sub"
  unfolding Matches_def Let_def by presburger

text \<open>
  Matching ignores the case of the name.
\<close>

theorem Matches_case_insensitive: "Matches s (ToLower name) sub = Matches s name sub"
  by (rule Matches_cong) (rule normalizeLookupName_ToLower)

section \<open>The contract of a mergeable matcher\<close>

text \<open>
  What the loader and the filter rely on: an empty set matches nothing and a merged set matches
  what one of its parts matches. Then a set merged from many matches what one of them matches,
  whatever their order.
\<close>

locale matcher =
  fixes matches :: "'s \<Rightarrow> 'n \<Rightarrow> bool"
    and empty :: 's
    and merge :: "'s \<Rightarrow> 's \<Rightarrow> 's"
  assumes matches_empty: "\<not> matches empty n"
    and matches_merge: "matches (merge a b) n \<longleftrightarrow> matches a n \<or> matches b n"
begin

lemma matches_merge_all:
  "matches (foldl merge s ss) n \<longleftrightarrow> matches s n \<or> (\<exists>t \<in> set ss. matches t n)"
  by (induction ss arbitrary: s) (auto simp: matches_merge)

lemma matches_merge_all_empty: "matches (foldl merge empty ss) n \<longleftrightarrow> (\<exists>t \<in> set ss. matches t n)"
  by (simp add: matches_merge_all matches_empty)

lemma merge_order: "set ss = set ts \<Longrightarrow> matches (foldl merge empty ss) n = matches (foldl merge empty ts) n"
  by (simp add: matches_merge_all_empty)

end

lemma Merge_Some: "Merge s (Some d) = s\<lparr>Exact := Exact s \<union> Exact d, Wildcards := Wildcards s \<union> Wildcards d\<rparr>"
  by (simp add: Merge_def)

interpretation domains: matcher "\<lambda>s n. Matches (Some s) n sub" NewDomainSet "\<lambda>s d. Merge s (Some d)" for sub
  by unfold_locales (auto simp: Matches_iff NewDomainSet_def Merge_Some below_any_union)

end
