(* ===== verification/Parser.thy ===== *)
theory Parser
  imports DomainSet Dns GoBufio
begin

text \<open>
  \<^verbatim>\<open>pkg/filtering/parser.go\<close> (and \<^verbatim>\<open>ParseStats\<close> of \<^verbatim>\<open>types.go\<close>): reading a block or allow list
  into a domain set. The log lines of the parser are part of its result, so that the error limit
  can be stated. The syntax check of a domain name is the DNS library's \<^verbatim>\<open>IsDomainName\<close>.
\<close>

section \<open>Data\<close>

record ParseStats =
  TotalLines :: int
  Domains :: int
  Invalid :: int

record parseOptions =
  ListID :: string
  ErrorLimit :: int

record errorLimiter =
  lim_limit :: int
  lim_count :: int

datatype token_error =
    EmptyEntry
  | InvalidHostname
  | IPLiteral
  | EmptyDomain
  | InvalidDomain

datatype parse_log =
    InvalidEntry string int string token_error
  | ErrorsSuppressed string int int
  | ParsedBlocklist string int int

text \<open>The variables of \<^verbatim>\<open>parseList\<close> that \<^verbatim>\<open>addTokens\<close> changes through pointers.\<close>

record parse_state =
  ps_set :: DomainSet
  ps_stats :: ParseStats
  ps_limiter :: errorLimiter
  ps_log :: "parse_log list"

section \<open>Operations\<close>

definition BOM :: string where "BOM = [CHR 0xEF, CHR 0xBB, CHR 0xBF]"

definition stripBOM :: "string \<Rightarrow> string" where
  "stripBOM line = TrimPrefix line BOM"

definition splitFields :: "string \<Rightarrow> string list" where
  "splitFields line = Fields line"

definition isCommentLine :: "string \<Rightarrow> bool" where
  "isCommentLine line \<longleftrightarrow> HasPrefix line ''#'' \<or> HasPrefix line ''//'' \<or> HasPrefix line '';''"

definition isCommentToken :: "string \<Rightarrow> bool" where
  "isCommentToken token \<longleftrightarrow> HasPrefix token ''#'' \<or> HasPrefix token ''//'' \<or> HasPrefix token '';''"

definition limiter_log ::
    "errorLimiter \<Rightarrow> string \<Rightarrow> int \<Rightarrow> string \<Rightarrow> token_error \<Rightarrow> errorLimiter \<times> parse_log list" where
  "limiter_log l listID lineNum token err =
     (if lim_limit l = 0 then (l, [])
      else if lim_limit l > 0 \<and> lim_count l \<ge> lim_limit l then (l\<lparr>lim_count := lim_count l + 1\<rparr>, [])
      else (l\<lparr>lim_count := lim_count l + 1\<rparr>, [InvalidEntry listID lineNum token err]))"

definition limiter_summary :: "errorLimiter \<Rightarrow> string \<Rightarrow> int \<Rightarrow> parse_log list" where
  "limiter_summary l listID invalid =
     (if lim_limit l \<le> 0 then []
      else if invalid > lim_limit l then [ErrorsSuppressed listID invalid (lim_limit l)]
      else [])"

definition normalizeDomain :: "dnslib \<Rightarrow> string \<Rightarrow> token_error + string" where
  "normalizeDomain L name =
     (let trimmed = TrimSpace name in
      if trimmed = [] then Inl EmptyDomain
      else
        let lower = ToLower (TrimSuffix trimmed ''.'') in
        if lower = [] then Inl EmptyDomain
        else if \<not> IsDomainName L lower then Inl InvalidDomain
        else Inr lower)"

definition addToken :: "dnslib \<Rightarrow> DomainSet \<Rightarrow> string \<Rightarrow> token_error + DomainSet" where
  "addToken L s token =
     (let name = TrimSpace token in
      if name = [] then Inl EmptyEntry
      else if Contains name ''://'' \<or> Contains name ''/'' \<or> Contains name '':'' then Inl InvalidHostname
      else if ParseIP name \<noteq> None then Inl IPLiteral
      else if HasPrefix name ''*.'' then
        (case normalizeDomain L (TrimPrefix name ''*.'') of
           Inl e \<Rightarrow> Inl e
         | Inr canonical \<Rightarrow> Inr (AddWildcard s canonical))
      else
        (case normalizeDomain L name of
           Inl e \<Rightarrow> Inl e
         | Inr canonical \<Rightarrow> Inr (AddExact s canonical)))"

fun addTokens :: "dnslib \<Rightarrow> string \<Rightarrow> int \<Rightarrow> string list \<Rightarrow> parse_state \<Rightarrow> parse_state" where
  "addTokens L listID lineNum [] st = st"
| "addTokens L listID lineNum (token # tokens) st =
     (if isCommentToken token then st
      else (case addToken L (ps_set st) token of
          Inl err \<Rightarrow>
            let (lim, out) = limiter_log (ps_limiter st) listID lineNum token err in
            addTokens L listID lineNum tokens
              (st\<lparr>ps_stats := (ps_stats st)\<lparr>Invalid := Invalid (ps_stats st) + 1\<rparr>,
                 ps_limiter := lim, ps_log := ps_log st @ out\<rparr>)
        | Inr s' \<Rightarrow>
            addTokens L listID lineNum tokens
              (st\<lparr>ps_set := s',
                 ps_stats := (ps_stats st)\<lparr>Domains := Domains (ps_stats st) + 1\<rparr>\<rparr>)))"

text \<open>The body of the scan loop for the line with number \<open>lineNum\<close>, and the loop.\<close>

definition parse_line :: "dnslib \<Rightarrow> string \<Rightarrow> int \<Rightarrow> string \<Rightarrow> parse_state \<Rightarrow> parse_state" where
  "parse_line L listID lineNum text st0 =
     (let st = st0\<lparr>ps_stats := (ps_stats st0)\<lparr>TotalLines := TotalLines (ps_stats st0) + 1\<rparr>\<rparr>;
          line = TrimSpace (stripBOM text)
      in
      if line = [] then st
      else if isCommentLine line then st
      else (case splitFields line of
          [] \<Rightarrow> st
        | field0 # rest \<Rightarrow>
            let tokens = (if ParseIP field0 \<noteq> None then rest else field0 # rest)
            in addTokens L listID lineNum tokens st))"

fun parse_lines :: "dnslib \<Rightarrow> string \<Rightarrow> int \<Rightarrow> string list \<Rightarrow> parse_state \<Rightarrow> parse_state" where
  "parse_lines L listID lineNum [] st = st"
| "parse_lines L listID lineNum (l # ls) st =
     parse_lines L listID (lineNum + 1) ls (parse_line L listID lineNum l st)"

definition parse_init :: "parseOptions \<Rightarrow> parse_state" where
  "parse_init opts = \<lparr>ps_set = NewDomainSet,
     ps_stats = \<lparr>TotalLines = 0, Domains = 0, Invalid = 0\<rparr>,
     ps_limiter = \<lparr>lim_limit = ErrorLimit opts, lim_count = 0\<rparr>, ps_log = []\<rparr>"

definition parseList ::
    "dnslib \<Rightarrow> reader \<Rightarrow> parseOptions \<Rightarrow> (goerror + DomainSet) \<times> parse_log list" where
  "parseList L r opts =
     (let st = parse_lines L (ListID opts) 1 (scan_tokens r) (parse_init opts) in
      case scan_err r of
        Some e \<Rightarrow> (Inl (''scan list: '' @ e), ps_log st)
      | None \<Rightarrow>
          (Inr (ps_set st),
           ps_log st @ limiter_summary (ps_limiter st) (ListID opts) (Invalid (ps_stats st))
             @ [ParsedBlocklist (ListID opts) (Domains (ps_stats st)) (Invalid (ps_stats st))]))"

section \<open>Single entries\<close>

lemma normalizeDomain_lookup: "normalizeDomain L tok = Inr d \<Longrightarrow> normalizeLookupName tok = d \<and> d \<noteq> []"
  by (auto simp: normalizeDomain_def normalizeLookupName_def Let_def split: if_splits)

lemma normalizeLookupName_TrimSpace: "normalizeLookupName (TrimSpace n) = normalizeLookupName n"
  by (simp add: normalizeLookupName_def)

text \<open>Adding an entry to a set is merging the set of this entry alone into it.\<close>

lemma addToken_Merge:
  "addToken L s tok = (case addToken L NewDomainSet tok of Inl e \<Rightarrow> Inl e | Inr d \<Rightarrow> Inr (Merge s (Some d)))"
  by (auto simp: addToken_def Let_def AddWildcard_def AddExact_def NewDomainSet_def Merge_def split: sum.splits)

lemma addToken_new_cases:
  assumes "addToken L NewDomainSet tok = Inr d"
  obtains (wild) w where "HasPrefix (TrimSpace tok) ''*.''" "normalizeDomain L (TrimPrefix (TrimSpace tok) ''*.'') = Inr w"
      "d = \<lparr>Exact = {}, Wildcards = {w}\<rparr>"
  | (exact) x where "\<not> HasPrefix (TrimSpace tok) ''*.''" "normalizeDomain L (TrimSpace tok) = Inr x"
      "d = \<lparr>Exact = {x}, Wildcards = {}\<rparr>"
proof (cases "HasPrefix (TrimSpace tok) ''*.''")
  case True
  with assms obtain w where w: "normalizeDomain L (TrimPrefix (TrimSpace tok) ''*.'') = Inr w"
      "d = AddWildcard NewDomainSet w"
    by (auto simp: addToken_def Let_def split: if_splits sum.splits)
  moreover have "w \<noteq> []" using normalizeDomain_lookup w(1) by blast
  ultimately show thesis using wild True by (simp add: AddWildcard_def NewDomainSet_def)
next
  case False
  with assms obtain x where x: "normalizeDomain L (TrimSpace tok) = Inr x" "d = AddExact NewDomainSet x"
    by (auto simp: addToken_def Let_def split: if_splits sum.splits)
  moreover have "x \<noteq> []" using normalizeDomain_lookup x(1) by blast
  ultimately show thesis using exact False by (simp add: AddExact_def NewDomainSet_def)
qed

text \<open>What one accepted entry matches.\<close>

lemma entry_matches_exact:
  assumes "addToken L NewDomainSet tok = Inr d" "\<not> HasPrefix (TrimSpace tok) ''*.''"
  shows "Matches (Some d) n sub \<longleftrightarrow> normalizeLookupName n = normalizeLookupName tok \<or>
    (sub \<and> normalizeLookupName n \<noteq> [] \<and> below_any (normalizeLookupName n) {normalizeLookupName tok})"
proof -
  from assms obtain x where x: "normalizeDomain L (TrimSpace tok) = Inr x" "d = \<lparr>Exact = {x}, Wildcards = {}\<rparr>"
    by (auto elim: addToken_new_cases)
  then have "normalizeLookupName tok = x" "x \<noteq> []"
    using normalizeDomain_lookup normalizeLookupName_TrimSpace by metis+
  with x show ?thesis by (auto simp: Matches_iff)
qed

section \<open>Whole lists\<close>

text \<open>The entries of a line: its fields without a leading address, up to the first comment.\<close>

definition line_tokens :: "string \<Rightarrow> string list" where
  "line_tokens text =
     (let line = TrimSpace (stripBOM text) in
      if line = [] \<or> isCommentLine line then []
      else (case splitFields line of
          [] \<Rightarrow> []
        | f # rest \<Rightarrow> takeWhile (\<lambda>t. \<not> isCommentToken t) (if ParseIP f \<noteq> None then rest else f # rest)))"

definition entry_sets :: "dnslib \<Rightarrow> string list \<Rightarrow> DomainSet list" where
  "entry_sets L toks =
     concat (map (\<lambda>t. case addToken L NewDomainSet t of Inl _ \<Rightarrow> [] | Inr d \<Rightarrow> [d]) toks)"

abbreviation merge_all :: "DomainSet \<Rightarrow> DomainSet list \<Rightarrow> DomainSet" where
  "merge_all s ds \<equiv> foldl (\<lambda>a d. Merge a (Some d)) s ds"

lemma entry_sets_simps [simp]:
  "entry_sets L [] = []"
  "addToken L NewDomainSet t = Inl e \<Longrightarrow> entry_sets L (t # ts) = entry_sets L ts"
  "addToken L NewDomainSet t = Inr d \<Longrightarrow> entry_sets L (t # ts) = d # entry_sets L ts"
  "entry_sets L (ts @ ts') = entry_sets L ts @ entry_sets L ts'"
  by (simp_all add: entry_sets_def)

lemma entry_sets_set: "d \<in> set (entry_sets L toks) \<longleftrightarrow> (\<exists>t \<in> set toks. addToken L NewDomainSet t = Inr d)"
  by (induction toks) (auto simp: entry_sets_def split: sum.splits)

lemma length_entry_sets_le: "length (entry_sets L ts) \<le> length ts"
  by (induction ts) (auto simp: entry_sets_def split: sum.splits)

text \<open>One round of the token loop.\<close>

lemma addTokens_comment: "isCommentToken t \<Longrightarrow> addTokens L listID n (t # ts) st = st"
  by simp

lemma addTokens_invalid:
  assumes "\<not> isCommentToken t" "addToken L NewDomainSet t = Inl err"
  shows "addTokens L listID n (t # ts) st = addTokens L listID n ts
     (st\<lparr>ps_stats := (ps_stats st)\<lparr>Invalid := Invalid (ps_stats st) + 1\<rparr>,
        ps_limiter := fst (limiter_log (ps_limiter st) listID n t err),
        ps_log := ps_log st @ snd (limiter_log (ps_limiter st) listID n t err)\<rparr>)"
  using assms by (simp add: addToken_Merge [of L "ps_set st"] split_beta)

lemma addTokens_valid:
  assumes "\<not> isCommentToken t" "addToken L NewDomainSet t = Inr d"
  shows "addTokens L listID n (t # ts) st = addTokens L listID n ts
     (st\<lparr>ps_set := Merge (ps_set st) (Some d),
        ps_stats := (ps_stats st)\<lparr>Domains := Domains (ps_stats st) + 1\<rparr>\<rparr>)"
  using assms by (simp add: addToken_Merge [of L "ps_set st"])

lemmas addTokens_round = addTokens_comment addTokens_invalid addTokens_valid

text \<open>The effect of the token loop on the set and on the counters.\<close>

lemma addTokens_effect:
  fixes L listID n ts st
  defines "toks \<equiv> takeWhile (\<lambda>t. \<not> isCommentToken t) ts" and "st' \<equiv> addTokens L listID n ts st"
  shows "ps_set st' = merge_all (ps_set st) (entry_sets L toks)"
    and "Domains (ps_stats st') = Domains (ps_stats st) + int (length (entry_sets L toks))"
    and "Invalid (ps_stats st') = Invalid (ps_stats st) + int (length toks) - int (length (entry_sets L toks))"
    and "TotalLines (ps_stats st') = TotalLines (ps_stats st)"
  unfolding assms
proof (induction ts arbitrary: st)
  case (Cons t ts)
  { case 1 show ?case using Cons.IH(1)
      by (cases "isCommentToken t"; cases "addToken L NewDomainSet t")
        (simp_all add: addTokens_round del: addTokens.simps) }
  { case 2 show ?case using Cons.IH(2)
      by (cases "isCommentToken t"; cases "addToken L NewDomainSet t")
        (simp_all add: addTokens_round del: addTokens.simps) }
  { case 3 show ?case using Cons.IH(3)
      by (cases "isCommentToken t"; cases "addToken L NewDomainSet t")
        (simp_all add: addTokens_round del: addTokens.simps) }
  { case 4 show ?case using Cons.IH(4)
      by (cases "isCommentToken t"; cases "addToken L NewDomainSet t")
        (simp_all add: addTokens_round del: addTokens.simps) }
qed simp_all

lemma parse_line_addTokens:
  "\<exists>ts. takeWhile (\<lambda>t. \<not> isCommentToken t) ts = line_tokens l \<and>
     parse_line L listID n l st =
       addTokens L listID n ts (st\<lparr>ps_stats := (ps_stats st)\<lparr>TotalLines := TotalLines (ps_stats st) + 1\<rparr>\<rparr>)"
proof (cases "TrimSpace (stripBOM l) = [] \<or> isCommentLine (TrimSpace (stripBOM l))")
  case True
  then show ?thesis by (intro exI [of _ "[]"]) (auto simp: line_tokens_def parse_line_def Let_def)
next
  case False
  show ?thesis
  proof (cases "splitFields (TrimSpace (stripBOM l))")
    case Nil
    with False show ?thesis by (intro exI [of _ "[]"]) (auto simp: line_tokens_def parse_line_def Let_def)
  next
    case (Cons f rest)
    with False show ?thesis
      by (intro exI [of _ "if ParseIP f \<noteq> None then rest else f # rest"])
        (auto simp: line_tokens_def parse_line_def Let_def)
  qed
qed

lemma parse_line_effect:
  "ps_set (parse_line L listID n l st) = merge_all (ps_set st) (entry_sets L (line_tokens l))"
  "Domains (ps_stats (parse_line L listID n l st)) =
     Domains (ps_stats st) + int (length (entry_sets L (line_tokens l)))"
  "Invalid (ps_stats (parse_line L listID n l st)) =
     Invalid (ps_stats st) + int (length (line_tokens l)) - int (length (entry_sets L (line_tokens l)))"
  "TotalLines (ps_stats (parse_line L listID n l st)) = TotalLines (ps_stats st) + 1"
proof -
  obtain ts where ts: "takeWhile (\<lambda>t. \<not> isCommentToken t) ts = line_tokens l"
    "parse_line L listID n l st =
       addTokens L listID n ts (st\<lparr>ps_stats := (ps_stats st)\<lparr>TotalLines := TotalLines (ps_stats st) + 1\<rparr>\<rparr>)"
    using parse_line_addTokens by blast
  note eff = addTokens_effect [of L listID n ts, unfolded ts(1)]
  show "ps_set (parse_line L listID n l st) = merge_all (ps_set st) (entry_sets L (line_tokens l))"
    "Domains (ps_stats (parse_line L listID n l st)) =
       Domains (ps_stats st) + int (length (entry_sets L (line_tokens l)))"
    "Invalid (ps_stats (parse_line L listID n l st)) =
       Invalid (ps_stats st) + int (length (line_tokens l)) - int (length (entry_sets L (line_tokens l)))"
    "TotalLines (ps_stats (parse_line L listID n l st)) = TotalLines (ps_stats st) + 1"
    by (simp_all add: ts(2) eff)
qed

definition list_entries :: "string list \<Rightarrow> string list" where
  "list_entries ls = concat (map line_tokens ls)"

lemma parse_lines_effect:
  "ps_set (parse_lines L listID n ls st) = merge_all (ps_set st) (entry_sets L (list_entries ls))"
  "Domains (ps_stats (parse_lines L listID n ls st)) =
     Domains (ps_stats st) + int (length (entry_sets L (list_entries ls)))"
  "Invalid (ps_stats (parse_lines L listID n ls st)) =
     Invalid (ps_stats st) + int (length (list_entries ls)) - int (length (entry_sets L (list_entries ls)))"
  "TotalLines (ps_stats (parse_lines L listID n ls st)) = TotalLines (ps_stats st) + int (length ls)"
  by (induction ls arbitrary: st n) (simp_all add: parse_line_effect list_entries_def)

lemma parseList_set:
  "parseList L r opts = (Inr s, logs) \<Longrightarrow>
     s = merge_all NewDomainSet (entry_sets L (list_entries (scan_tokens r)))"
  by (auto simp: parseList_def Let_def parse_lines_effect parse_init_def split: option.splits)

lemma parseList_entry:
  assumes "parseList L r opts = (Inr s, logs)"
  shows "Matches (Some s) name sub \<longleftrightarrow>
    (\<exists>tok \<in> set (list_entries (scan_tokens r)). \<exists>d. addToken L NewDomainSet tok = Inr d \<and> Matches (Some d) name sub)"
  unfolding parseList_set [OF assms] domains.matches_merge_all_empty
  using entry_sets_set by blast

text \<open>
  C32: A parsed list matches a name exactly when one of the accepted entries of its lines does:
  no entry is lost, none is invented, and the order of the lines does not matter.
\<close>

theorem parseList_matches:
  assumes "parseList L r opts = (Inr s, logs)"
  shows "Matches (Some s) name sub \<longleftrightarrow>
    (\<exists>line \<in> set (scan_tokens r). \<exists>tok \<in> set (line_tokens line). \<exists>d.
       addToken L NewDomainSet tok = Inr d \<and> Matches (Some d) name sub)"
  unfolding parseList_entry [OF assms] list_entries_def by (simp; blast)

text \<open>A hosts-style list for concrete runs: one entry behind an address, and a comment.\<close>

definition sample_list :: reader where
  "sample_list = \<lparr>rd_data = unlines [''0.0.0.0 ads.example # x''], rd_err = None\<rparr>"

definition sample_options :: parseOptions where
  "sample_options = \<lparr>ListID = ''sample'', ErrorLimit = 1\<rparr>"

lemma sample_list_scan: "scan_tokens sample_list = [''0.0.0.0 ads.example # x'']" "scan_err sample_list = None"
  by (simp_all add: sample_list_def scan_eval)

lemma sample_list_parses: "\<exists>s logs. parseList sample_lib sample_list sample_options = (Inr s, logs)"
  by (simp add: parseList_def Let_def sample_list_scan)

lemma sample_list_entries: "line_tokens ''0.0.0.0 ads.example # x'' = [''ads.example'']"
proof -
  have "splitFields ''0.0.0.0 ads.example # x'' = [''0.0.0.0'', ''ads.example'', ''#'', ''x'']"
    "TrimSpace (stripBOM ''0.0.0.0 ads.example # x'') = ''0.0.0.0 ads.example # x''"
    "\<not> isCommentLine ''0.0.0.0 ads.example # x''" "\<not> isCommentToken ''ads.example''" "isCommentToken ''#''"
    by code_simp+
  moreover have "ParseIP ''0.0.0.0'' \<noteq> None" by (simp add: ParseIP_eval)
  ultimately show ?thesis by (simp add: line_tokens_def)
qed

lemma sample_entry_accepted:
  "addToken sample_lib NewDomainSet ''ads.example'' = Inr \<lparr>Exact = {''ads.example''}, Wildcards = {}\<rparr>"
proof -
  have "TrimSpace ''ads.example'' = ''ads.example''"
    "\<not> (Contains ''ads.example'' ''://'' \<or> Contains ''ads.example'' ''/'' \<or> Contains ''ads.example'' '':'')"
    "\<not> HasPrefix ''ads.example'' ''*.''" "normalizeDomain sample_lib ''ads.example'' = Inr ''ads.example''"
    by code_simp+
  moreover have "ParseIP ''ads.example'' = None" by (simp add: ParseIP_eval)
  ultimately show ?thesis by (simp add: addToken_def AddExact_def NewDomainSet_def)
qed

theorem parseList_matches_witness:
  "\<exists>s logs. parseList sample_lib sample_list sample_options = (Inr s, logs) \<and>
     Matches (Some s) ''ADS.example.'' False \<and> \<not> Matches (Some s) ''x'' False"
proof -
  obtain s logs where p: "parseList sample_lib sample_list sample_options = (Inr s, logs)"
    using sample_list_parses by blast
  have "normalizeLookupName ''ADS.example.'' = ''ads.example''" "normalizeLookupName ''x'' = ''x''" by code_simp+
  then show ?thesis
    using p parseList_matches [OF p, of "''ADS.example.''" False] parseList_matches [OF p, of "''x''" False]
    by (simp add: sample_list_scan sample_list_entries sample_entry_accepted Matches_iff)
qed

text \<open>
  Every domain a list names as an accepted entry is matched by the parsed list, and with
  subdomains included so is every name below it.
\<close>

theorem listed_domain_matches:
  assumes "parseList L r opts = (Inr s, logs)" and "tok \<in> set (list_entries (scan_tokens r))"
    and "addToken L NewDomainSet tok = Inr d" and "\<not> HasPrefix (TrimSpace tok) ''*.''"
    and "normalizeLookupName n = normalizeLookupName tok \<or>
      (sub \<and> (\<exists>p. normalizeLookupName n = p @ CHR ''.'' # normalizeLookupName tok))"
  shows "Matches (Some s) n sub"
proof -
  have "Matches (Some d) n sub"
    using assms(5) unfolding entry_matches_exact [OF assms(3,4)] by (auto simp: below_any_def)
  then show ?thesis using assms(2,3) parseList_entry [OF assms(1)] by blast
qed

theorem listed_domain_matches_witness:
  "\<exists>s logs. parseList sample_lib sample_list sample_options = (Inr s, logs) \<and> Matches (Some s) ''x.ADS.example'' True"
proof -
  obtain s logs where p: "parseList sample_lib sample_list sample_options = (Inr s, logs)"
    using sample_list_parses by blast
  have "normalizeLookupName ''x.ADS.example'' = ''x'' @ CHR ''.'' # normalizeLookupName ''ads.example''"
    "\<not> HasPrefix (TrimSpace ''ads.example'') ''*.''"
    by code_simp+
  then have "Matches (Some s) ''x.ADS.example'' True"
    by (intro listed_domain_matches [OF p _ sample_entry_accepted])
      (auto simp: list_entries_def sample_list_scan sample_list_entries)
  with p show ?thesis by blast
qed

section \<open>The error limit\<close>

text \<open>
  The limiter counts the invalid entries unless the limit is zero, and the log holds as many
  entries as the limit allows (all of them for a negative limit).
\<close>

definition limiter_ok :: "parse_state \<Rightarrow> bool" where
  "limiter_ok st \<longleftrightarrow>
     (let m = lim_limit (ps_limiter st); c = lim_count (ps_limiter st); k = int (length (ps_log st)) in
      0 \<le> c \<and> (m = 0 \<longrightarrow> k = 0) \<and> (m \<noteq> 0 \<longrightarrow> c = Invalid (ps_stats st)) \<and>
      (m > 0 \<longrightarrow> k = min m c) \<and> (m < 0 \<longrightarrow> k = c)) \<and>
     (\<forall>e \<in> set (ps_log st). \<exists>a b c d. e = InvalidEntry a b c d)"

lemma addTokens_limiter:
  "limiter_ok st \<Longrightarrow> limiter_ok (addTokens L listID n ts st) \<and>
     lim_limit (ps_limiter (addTokens L listID n ts st)) = lim_limit (ps_limiter st)"
proof (induction ts arbitrary: st)
  case (Cons t ts)
  show ?case
  proof (cases "isCommentToken t")
    case False
    show ?thesis
    proof (cases "addToken L NewDomainSet t")
      case (Inl err)
      let ?lim = "limiter_log (ps_limiter st) listID n t err"
      let ?st = "st\<lparr>ps_stats := (ps_stats st)\<lparr>Invalid := Invalid (ps_stats st) + 1\<rparr>,
        ps_limiter := fst ?lim, ps_log := ps_log st @ snd ?lim\<rparr>"
      have "limiter_ok ?st" "lim_limit (ps_limiter ?st) = lim_limit (ps_limiter st)"
        using Cons.prems by (auto simp: limiter_ok_def limiter_log_def Let_def)
      with Cons.IH [of ?st] False Inl show ?thesis by (simp add: addTokens_invalid del: addTokens.simps)
    next
      case (Inr d)
      let ?st = "st\<lparr>ps_set := Merge (ps_set st) (Some d),
        ps_stats := (ps_stats st)\<lparr>Domains := Domains (ps_stats st) + 1\<rparr>\<rparr>"
      have "limiter_ok ?st" using Cons.prems by (simp add: limiter_ok_def)
      with Cons.IH [of ?st] False Inr show ?thesis by (simp add: addTokens_valid del: addTokens.simps)
    qed
  qed (use Cons.prems in simp)
qed simp

lemma parse_lines_limiter:
  "limiter_ok st \<Longrightarrow> limiter_ok (parse_lines L listID n ls st) \<and>
     lim_limit (ps_limiter (parse_lines L listID n ls st)) = lim_limit (ps_limiter st)"
proof (induction ls arbitrary: st n)
  case (Cons l ls)
  obtain ts where "parse_line L listID n l st =
       addTokens L listID n ts (st\<lparr>ps_stats := (ps_stats st)\<lparr>TotalLines := TotalLines (ps_stats st) + 1\<rparr>\<rparr>)"
    using parse_line_addTokens by blast
  moreover have "limiter_ok (st\<lparr>ps_stats := (ps_stats st)\<lparr>TotalLines := TotalLines (ps_stats st) + 1\<rparr>\<rparr>)"
    using Cons.prems by (simp add: limiter_ok_def)
  ultimately have "limiter_ok (parse_line L listID n l st)"
    "lim_limit (ps_limiter (parse_line L listID n l st)) = lim_limit (ps_limiter st)"
    using addTokens_limiter by fastforce+
  with Cons.IH show ?case by simp
qed simp

definition invalid_entries :: "dnslib \<Rightarrow> reader \<Rightarrow> int" where
  "invalid_entries L r =
     int (length (filter (\<lambda>t. \<exists>e. addToken L NewDomainSet t = Inl e) (list_entries (scan_tokens r))))"

lemma entry_sets_invalid:
  "int (length ts) - int (length (entry_sets L ts)) =
     int (length (filter (\<lambda>t. \<exists>e. addToken L NewDomainSet t = Inl e) ts))"
proof (induction ts)
  case (Cons t ts)
  then show ?case by (cases "addToken L NewDomainSet t") simp_all
qed simp

definition is_invalid_log :: "parse_log \<Rightarrow> bool" where
  "is_invalid_log e \<longleftrightarrow> (\<exists>a b c d. e = InvalidEntry a b c d)"

text \<open>
  C33: The error limit: with a limit of zero or more, a list with \<open>k\<close> invalid entries logs
  the smaller of \<open>k\<close> and the limit of them, and the summary with both numbers is logged
  exactly when the limit is positive and exceeded.
\<close>

theorem parseList_error_limit:
  assumes "parseList L r opts = (Inr s, logs)" and "0 \<le> ErrorLimit opts"
  shows "int (length (filter is_invalid_log logs)) = min (ErrorLimit opts) (invalid_entries L r) \<and>
    (ErrorsSuppressed (ListID opts) (invalid_entries L r) (ErrorLimit opts) \<in> set logs \<longleftrightarrow>
      0 < ErrorLimit opts \<and> ErrorLimit opts < invalid_entries L r)"
proof -
  let ?st = "parse_lines L (ListID opts) 1 (scan_tokens r) (parse_init opts)"
  let ?sum = "limiter_summary (ps_limiter ?st) (ListID opts) (Invalid (ps_stats ?st))"
  have logs: "logs = ps_log ?st @ ?sum @ [ParsedBlocklist (ListID opts) (Domains (ps_stats ?st)) (Invalid (ps_stats ?st))]"
    using assms(1) by (auto simp: parseList_def Let_def split: option.splits)
  have "limiter_ok (parse_init opts)" by (simp add: limiter_ok_def parse_init_def)
  then have ok: "limiter_ok ?st" and lim: "lim_limit (ps_limiter ?st) = ErrorLimit opts"
    using parse_lines_limiter by (simp_all add: parse_init_def)
  have inv: "Invalid (ps_stats ?st) = invalid_entries L r"
    using entry_sets_invalid [of "list_entries (scan_tokens r)" L]
    by (simp add: parse_lines_effect parse_init_def invalid_entries_def)
  have "filter is_invalid_log (ps_log ?st) = ps_log ?st"
    using ok by (auto simp: limiter_ok_def is_invalid_log_def Let_def filter_id_conv)
  moreover have "filter is_invalid_log ?sum = []"
    by (simp add: limiter_summary_def is_invalid_log_def)
  moreover have "int (length (ps_log ?st)) = min (ErrorLimit opts) (invalid_entries L r)"
    using ok assms(2) lim inv by (auto simp: limiter_ok_def Let_def invalid_entries_def)
  moreover have "ErrorsSuppressed (ListID opts) (invalid_entries L r) (ErrorLimit opts) \<notin> set (ps_log ?st)"
    using ok by (auto simp: limiter_ok_def Let_def)
  ultimately show ?thesis
    unfolding logs by (auto simp: limiter_summary_def lim inv is_invalid_log_def)
qed

theorem parseList_error_limit_witness:
  "\<exists>s logs. parseList sample_lib sample_list sample_options = (Inr s, logs) \<and> filter is_invalid_log logs = []"
proof -
  obtain s logs where p: "parseList sample_lib sample_list sample_options = (Inr s, logs)"
    using sample_list_parses by blast
  have "invalid_entries sample_lib sample_list = 0"
    by (simp add: invalid_entries_def list_entries_def sample_list_scan sample_list_entries sample_entry_accepted)
  then show ?thesis
    using p parseList_error_limit [OF p] by (simp add: sample_options_def)
qed

end
