(* ===== verification/DnsFilter.thy ===== *)
theory DnsFilter
  imports Parser GoTime
begin

text \<open>
  \<^verbatim>\<open>pkg/filtering/filter.go\<close> and \<^verbatim>\<open>blocked_logger.go\<close>: the decision whether a name is blocked
  and the log of blocked queries. The log file is the text written to it; an atomic value that
  holds no domain set is \<open>None\<close>.
\<close>

section \<open>Data\<close>

record AuthConfig =
  Username :: string
  Password :: string
  Token :: string
  AuthHeader :: string
  Scheme :: string

record Source =
  SourceID :: string
  Location :: string
  SourceEnabled :: bool
  Auth :: AuthConfig

text \<open>\<open>bl_file\<close> is the text of the open file, \<open>None\<close> for a nil file.\<close>

record blockedLogger =
  bl_file :: "string option"

record Filter =
  enabled :: bool
  blockSubdomains :: bool
  allowlistPath :: string
  sources :: "Source list"
  cacheDir :: string
  updateInterval :: int
  errorLimit :: int
  blocked_logger :: "blockedLogger option"
  blocklist :: "DomainSet option"
  allowlist :: "DomainSet option"

record FilterOptions =
  optEnabled :: bool
  optBlockSubdomains :: bool
  optAllowlistPath :: string
  optSources :: "Source list"
  optCacheDir :: string
  optUpdateInterval :: int
  optBlockedLogPath :: string
  optErrorLimit :: int

section \<open>Operations\<close>

text \<open>
  \<open>open_append\<close> is opening a file for appending: an error, or the text the file holds. The file
  is created when it is missing, so a missing file opens with an empty text.
\<close>

definition newBlockedLogger :: "(string \<Rightarrow> goerror + string) \<Rightarrow> string \<Rightarrow> blockedLogger option" where
  "newBlockedLogger open_append path =
     (if path = [] then None
      else (case open_append path of
          Inl err \<Rightarrow> None
        | Inr content \<Rightarrow> Some \<lparr>bl_file = Some content\<rparr>))"

definition blocked_line :: "dnslib \<Rightarrow> int \<Rightarrow> string \<Rightarrow> string \<Rightarrow> u16 \<Rightarrow> string" where
  "blocked_line L now remoteAddr name qtype =
     (let t = (case TypeToString L qtype of None \<Rightarrow> [] | Some s \<Rightarrow> s);
          recordType = (if t = [] then Itoa (unat qtype) else t)
      in FormatRFC3339 now @ '' client='' @ remoteAddr @ '' type='' @ recordType @ '' name='' @ name @ [CHR 0x0A])"

definition blockedLogger_Log ::
    "dnslib \<Rightarrow> int \<Rightarrow> blockedLogger option \<Rightarrow> string \<Rightarrow> string \<Rightarrow> u16 \<Rightarrow> blockedLogger option" where
  "blockedLogger_Log L now b remoteAddr name qtype =
     (case b of
        None \<Rightarrow> None
      | Some bl \<Rightarrow>
          (case bl_file bl of
             None \<Rightarrow> Some bl
           | Some content \<Rightarrow> Some (bl\<lparr>bl_file := Some (content @ blocked_line L now remoteAddr name qtype)\<rparr>)))"

definition NewFilter :: "(string \<Rightarrow> goerror + string) \<Rightarrow> FilterOptions \<Rightarrow> Filter" where
  "NewFilter open_append opts =
     \<lparr>enabled = optEnabled opts, blockSubdomains = optBlockSubdomains opts,
      allowlistPath = optAllowlistPath opts, sources = optSources opts, cacheDir = optCacheDir opts,
      updateInterval = optUpdateInterval opts, errorLimit = optErrorLimit opts,
      blocked_logger = newBlockedLogger open_append (optBlockedLogPath opts),
      blocklist = Some NewDomainSet, allowlist = Some NewDomainSet\<rparr>"

definition currentBlocklist :: "Filter \<Rightarrow> DomainSet" where
  "currentBlocklist f = (case blocklist f of Some s \<Rightarrow> s | None \<Rightarrow> NewDomainSet)"

definition currentAllowlist :: "Filter \<Rightarrow> DomainSet" where
  "currentAllowlist f = (case allowlist f of Some s \<Rightarrow> s | None \<Rightarrow> NewDomainSet)"

definition ShouldBlock :: "Filter option \<Rightarrow> string \<Rightarrow> bool" where
  "ShouldBlock fp name =
     (case fp of
        None \<Rightarrow> False
      | Some f \<Rightarrow>
          if \<not> enabled f then False
          else if Matches (Some (currentAllowlist f)) name (blockSubdomains f) then False
          else Matches (Some (currentBlocklist f)) name (blockSubdomains f))"

definition LogBlocked ::
    "dnslib \<Rightarrow> int \<Rightarrow> Filter option \<Rightarrow> string \<Rightarrow> string \<Rightarrow> u16 \<Rightarrow> Filter option" where
  "LogBlocked L now fp remoteAddr name qtype =
     (case fp of
        None \<Rightarrow> None
      | Some f \<Rightarrow>
          if \<not> enabled f then fp
          else if blocked_logger f = None then fp
          else Some (f\<lparr>blocked_logger := blockedLogger_Log L now (blocked_logger f) remoteAddr name qtype\<rparr>))"

section \<open>The decision\<close>

lemma ShouldBlock_None [simp]: "\<not> ShouldBlock None name"
  by (simp add: ShouldBlock_def)

text \<open>
  The decision of the filter: an enabled filter blocks a name exactly when the block list
  matches it and the allow list does not; with subdomain blocking an allow list entry also frees
  the names below it. A missing or disabled filter blocks nothing.
\<close>

theorem ShouldBlock_iff:
  "ShouldBlock fp name \<longleftrightarrow>
     (\<exists>f. fp = Some f \<and> enabled f \<and>
        Matches (Some (currentBlocklist f)) name (blockSubdomains f) \<and>
        \<not> Matches (Some (currentAllowlist f)) name (blockSubdomains f))"
  by (auto simp: ShouldBlock_def split: option.splits)

lemma ShouldBlock_NewFilter [simp]: "\<not> ShouldBlock (Some (NewFilter open_append opts)) name"
  by (simp add: ShouldBlock_def NewFilter_def currentBlocklist_def currentAllowlist_def
      domains.matches_empty)

lemma ShouldBlock_cong:
  "normalizeLookupName a = normalizeLookupName b \<Longrightarrow> ShouldBlock fp a = ShouldBlock fp b"
  by (cases fp) (simp_all add: ShouldBlock_def Matches_cong [of a b])

lemma LogBlocked_decision: "ShouldBlock (LogBlocked L now fp addr nm qt) name = ShouldBlock fp name"
  by (auto simp: LogBlocked_def ShouldBlock_def currentBlocklist_def currentAllowlist_def split: option.splits)

text \<open>
  Writing the log changes nothing but the text of the log file of an enabled filter, which grows
  by one line; every decision stays as it was.
\<close>

theorem LogBlocked_appends:
  assumes "enabled f" and "blocked_logger f = Some \<lparr>bl_file = Some content\<rparr>"
  shows "LogBlocked L now (Some f) addr name qtype =
    Some (f\<lparr>blocked_logger := Some \<lparr>bl_file = Some (content @ blocked_line L now addr name qtype)\<rparr>\<rparr>) \<and>
    ShouldBlock (LogBlocked L now (Some f) addr name qtype) other = ShouldBlock (Some f) other"
  using assms by (intro conjI LogBlocked_decision) (simp add: LogBlocked_def blockedLogger_Log_def)

theorem LogBlocked_appends_witness:
  "LogBlocked sample_lib 1700000000000000000
     (Some ((NewFilter (\<lambda>p. Inr [])
        \<lparr>optEnabled = True, optBlockSubdomains = True, optAllowlistPath = [], optSources = [], optCacheDir = [],
         optUpdateInterval = 0, optBlockedLogPath = ''blocked.log'', optErrorLimit = 0\<rparr>)
      \<lparr>blocklist := Some \<lparr>Exact = {''ads.example''}, Wildcards = {}\<rparr>\<rparr>)) ''10.0.0.7:53'' ''ads.example.'' TypeA =
   Some ((NewFilter (\<lambda>p. Inr [])
        \<lparr>optEnabled = True, optBlockSubdomains = True, optAllowlistPath = [], optSources = [], optCacheDir = [],
         optUpdateInterval = 0, optBlockedLogPath = ''blocked.log'', optErrorLimit = 0\<rparr>)
      \<lparr>blocklist := Some \<lparr>Exact = {''ads.example''}, Wildcards = {}\<rparr>,
       blocked_logger := Some \<lparr>bl_file = Some
         (''2023-11-14T22:13:20Z client=10.0.0.7:53 type=A name=ads.example.'' @ [CHR 0x0A])\<rparr>\<rparr>)"
proof -
  have "blocked_line sample_lib 1700000000000000000 ''10.0.0.7:53'' ''ads.example.'' TypeA =
      ''2023-11-14T22:13:20Z client=10.0.0.7:53 type=A name=ads.example.'' @ [CHR 0x0A]"
    by code_simp
  then show ?thesis
    by (subst conjunct1 [OF LogBlocked_appends [where content = "[]"]])
      (simp_all add: NewFilter_def newBlockedLogger_def)
qed

end
