(* ===== verification/Handler.thy ===== *)
theory Handler
  imports Records DnsCache Forward DnsFilter
begin

text \<open>
  \<^verbatim>\<open>pkg/handler/handler.go\<close>: from a DNS message to the reply that is written. The handler works
  on a world: the record store, the heap of messages with the cache that points into it, the
  filter, the state of the network and the messages written so far.
\<close>

section \<open>Data\<close>

definition DefaultTTL :: u32 where "DefaultTTL = 600"
definition MaxMsgSize :: nat where "MaxMsgSize = 512"

text \<open>What the handler calls outside the repository, and the clock.\<close>

record 'n env =
  dlib :: dnslib
  Exchange :: "'n exchanger"
  Now :: "'n \<Rightarrow> int"

record Handler =
  forwarder :: Forwarder
  listen :: string

record net_addr =
  Network :: string
  AddrString :: string

text \<open>
  \<open>w_sent\<close> lists the messages handed to \<^verbatim>\<open>WriteMsg\<close> with the client they are for, whether or not packing and sending them
  succeeds: the code only logs an error of \<^verbatim>\<open>WriteMsg\<close> and goes on in the same way.
\<close>

record 'n world =
  w_records :: record_store
  w_heap :: heap
  w_cache :: DNSCache
  w_filter :: "Filter option"
  w_net :: 'n
  w_sent :: "(net_addr \<times> Msg) list"

text \<open>The state of one request; the response writer is known by its remote address.\<close>

record requestState =
  clientIP :: "ip option"
  queryName :: string
  queryType :: u16
  rs_remote :: net_addr

section \<open>Helpers\<close>

definition cacheKeyFor :: "string \<Rightarrow> u16 \<Rightarrow> string \<Rightarrow> string" where
  "cacheKeyFor name qtype protocol = ToLower name @ ''|'' @ Itoa (unat qtype) @ ''|'' @ protocol"

definition checkCache :: "'n env \<Rightarrow> 'n world \<Rightarrow> string \<Rightarrow> u16 \<Rightarrow> Msg option outcome" where
  "checkCache E w key mid =
     (case cache_Get (w_heap w) (w_cache w) (Now E (w_net w)) key of
        Panic \<Rightarrow> Panic
      | Return None \<Rightarrow> Return None
      | Return (Some ref) \<Rightarrow>
          Return (Some ((MsgCopy (dlib E) (w_heap w ! ref))\<lparr>MsgId := mid, RecursionAvailable := True\<rparr>)))"

definition mk_header :: "string \<Rightarrow> u16 \<Rightarrow> RR_Header" where
  "mk_header name t = \<lparr>hName = name, Rrtype = t, Class = ClassINET, Ttl = DefaultTTL\<rparr>"

definition mk_CNAME :: "string \<Rightarrow> string \<Rightarrow> RR" where
  "mk_CNAME name target = RR_CNAME (mk_header name TypeCNAME) target"

definition mk_A :: "string \<Rightarrow> string \<Rightarrow> RR" where
  "mk_A name content = RR_A (mk_header name TypeA) (ParseIP content)"

section \<open>Local records\<close>

definition handleA :: "'n env \<Rightarrow> requestState \<Rightarrow> Msg \<Rightarrow> Record \<Rightarrow> Msg" where
  "handleA E rs r rec =
     (let msg = (SetReply (dlib E) new_Msg r)\<lparr>RecursionAvailable := True\<rparr> in
      if queryType rs = TypeA then
        msg\<lparr>Answer := Answer msg @ [mk_A (queryName rs) (Content rec)], Authoritative := True\<rparr>
      else msg)"

text \<open>
  The loop that follows a CNAME chain through the local records. It ends at a local address
  record or at a name without a local record; a chain that comes back to itself, and a record of
  any other type, keep it running for ever, which is the value \<open>None\<close>.
\<close>

datatype chain_end = Resolved "RR list" | Dangling string "RR list"

partial_function (option) cname_loop :: "record_store \<Rightarrow> string \<Rightarrow> RR list \<Rightarrow> chain_end option" where
  "cname_loop recs target answer =
     (case records_Get recs target of
        None \<Rightarrow> Some (Dangling target answer)
      | Some rec \<Rightarrow>
          if Typ rec = records_CNAME then
            cname_loop recs (Content rec @ ''.'') (answer @ [mk_CNAME target (Content rec @ ''.'')])
          else if Typ rec = records_A then
            Some (Resolved (answer @ [mk_A target (Content rec)]))
          else cname_loop recs target answer)"

definition handleCNAME ::
    "'n env \<Rightarrow> Handler \<Rightarrow> record_store \<Rightarrow> requestState \<Rightarrow> Msg \<Rightarrow> Record \<Rightarrow> 'n \<Rightarrow> (Msg \<times> 'n) outcome option" where
  "handleCNAME E h recs rs r rec n =
     (let msg = (SetReply (dlib E) new_Msg r)\<lparr>RecursionAvailable := True\<rparr>;
          target = Content rec @ ''.'';
          answer = Answer msg @ [mk_CNAME (queryName rs) target]
      in
      case cname_loop recs target answer of
        None \<Rightarrow> None
      | Some (Resolved ans) \<Rightarrow> Some (Return (msg\<lparr>Answer := ans, Authoritative := True\<rparr>, n))
      | Some (Dangling t ans) \<Rightarrow>
          (case Forward (Exchange E) (forwarder h) (SetQuestion (dlib E) new_Msg t TypeA) n of
             ((_, Some err), n') \<Rightarrow> Some (Return (msg\<lparr>Answer := ans\<rparr>, n'))
           | ((None, None), n') \<Rightarrow> Some Panic
           | ((Some response, None), n') \<Rightarrow> Some (Return (msg\<lparr>Answer := ans @ Answer response\<rparr>, n'))))"

definition handleLocalRecord ::
    "'n env \<Rightarrow> Handler \<Rightarrow> record_store \<Rightarrow> requestState \<Rightarrow> Msg \<Rightarrow> 'n \<Rightarrow> (Msg option \<times> 'n) outcome option" where
  "handleLocalRecord E h recs rs r n =
     (case records_Get recs (queryName rs) of
        None \<Rightarrow> Some (Return (None, n))
      | Some rec \<Rightarrow>
          if Typ rec = records_CNAME then
            map_option (\<lambda>res. bind_outcome res (\<lambda>(m, n'). Return (Some m, n'))) (handleCNAME E h recs rs r rec n)
          else if Typ rec = records_A then Some (Return (Some (handleA E rs r rec), n))
          else Some (Return (None, n)))"

section \<open>Writing a reply\<close>

text \<open>The truncation loop; \<open>msgSize\<close> is the size of the message as it is.\<close>

function truncate_loop :: "dnslib \<Rightarrow> Msg \<Rightarrow> nat \<Rightarrow> Msg" where
  "truncate_loop L msg msgSize =
     (if msgSize > MaxMsgSize \<and> 0 < length (Answer msg) then
        let msg' = msg\<lparr>Answer := take (length (Answer msg) - 1) (Answer msg)\<rparr>
        in truncate_loop L msg' (MsgLen L msg')
      else msg)"
  by pat_completeness auto
termination
  by (relation "measure (\<lambda>(L, m, s). length (Answer m))") auto

declare truncate_loop.simps [simp del]

definition fit_response :: "dnslib \<Rightarrow> bool \<Rightarrow> Msg \<Rightarrow> Msg" where
  "fit_response L isTCP msg =
     (if 0 < length (Answer msg) then
        let msgSize = MsgLen L msg in
        if msgSize > MaxMsgSize then
          if isTCP then msg
          else truncate_loop L (msg\<lparr>Truncated := True\<rparr>) msgSize
        else msg
      else msg)"

text \<open>
  \<^verbatim>\<open>writeResponse\<close> changes the message in place and writes it; the result is the message as it
  is afterwards and the world with the write.
\<close>

definition writeResponse :: "'n env \<Rightarrow> requestState \<Rightarrow> Msg \<Rightarrow> 'n world \<Rightarrow> Msg \<times> 'n world" where
  "writeResponse E rs msg w =
     (let isTCP = (Network (rs_remote rs) = ''tcp'');
          msg' = fit_response (dlib E) isTCP msg
      in (msg', w\<lparr>w_sent := w_sent w @ [(rs_remote rs, msg')]\<rparr>))"

text \<open>A reply that is only written, and one whose object also went into the cache.\<close>

definition reply_fresh :: "'n env \<Rightarrow> requestState \<Rightarrow> Msg \<Rightarrow> 'n world \<Rightarrow> 'n world" where
  "reply_fresh E rs msg w = snd (writeResponse E rs msg w)"

definition cache_and_reply :: "'n env \<Rightarrow> requestState \<Rightarrow> string \<Rightarrow> Msg \<Rightarrow> 'n world \<Rightarrow> 'n world outcome" where
  "cache_and_reply E rs key msg w =
     (let (ref, heap') = alloc (w_heap w) msg in
      bind_outcome (cache_Set heap' (w_cache w) (Now E (w_net w)) key (Some ref))
        (\<lambda>cache'.
           let (msg', w') = writeResponse E rs msg (w\<lparr>w_heap := heap', w_cache := cache'\<rparr>)
           in Return (w'\<lparr>w_heap := heap'[ref := msg']\<rparr>)))"

section \<open>The request handler\<close>

definition format_error :: "'n env \<Rightarrow> Msg option \<Rightarrow> Msg" where
  "format_error E r =
     (case r of
        Some req \<Rightarrow> SetRcode (dlib E) new_Msg req RcodeFormatError
      | None \<Rightarrow> new_Msg\<lparr>Rcode := RcodeFormatError\<rparr>)"

definition protocol_of :: "net_addr \<Rightarrow> string" where
  "protocol_of a = (if Network a = ''tcp'' then ''tcp'' else ''udp'')"

definition request_state :: "net_addr \<Rightarrow> Question \<Rightarrow> requestState" where
  "request_state remote q =
     \<lparr>clientIP = ParseIP (fst (SplitHostPort (AddrString remote))),
      queryName = qName q, queryType = Qtype q, rs_remote = remote\<rparr>"

definition HandleDNSRequest ::
    "'n env \<Rightarrow> Handler \<Rightarrow> net_addr \<Rightarrow> Msg option \<Rightarrow> 'n world \<Rightarrow> 'n world outcome option" where
  "HandleDNSRequest E h remote req w =
     (if req = None \<or> Questions (the req) = [] then
        Some (Return (w\<lparr>w_sent := w_sent w @ [(remote, format_error E req)]\<rparr>))
      else
        let r = the req;
            q = hd (Questions r);
            rs = request_state remote q;
            cacheKey = cacheKeyFor (queryName rs) (queryType rs) (protocol_of remote)
        in
        (case handleLocalRecord E h (w_records w) rs r (w_net w) of
           None \<Rightarrow> None
         | Some Panic \<Rightarrow> Some Panic
         | Some (Return (Some msg, n')) \<Rightarrow>
             Some (cache_and_reply E rs cacheKey msg (w\<lparr>w_net := n'\<rparr>))
         | Some (Return (None, n')) \<Rightarrow>
             let w1 = w\<lparr>w_net := n'\<rparr> in
             if w_filter w1 \<noteq> None \<and> ShouldBlock (w_filter w1) (queryName rs) then
               let w2 = w1\<lparr>w_filter := LogBlocked (dlib E) (Now E n') (w_filter w1)
                             (AddrString remote) (queryName rs) (queryType rs)\<rparr>;
                   msg = (SetRcode (dlib E) new_Msg r RcodeNameError)\<lparr>RecursionAvailable := True\<rparr>
               in Some (Return (reply_fresh E rs msg w2))
             else
               (case checkCache E w1 cacheKey (MsgId r) of
                  Panic \<Rightarrow> Some Panic
                | Return (Some msg) \<Rightarrow> Some (Return (reply_fresh E rs msg w1))
                | Return None \<Rightarrow>
                    (case Forward (Exchange E) (forwarder h) r n' of
                       ((_, Some err), n'') \<Rightarrow>
                         let errMsg = (SetRcode (dlib E) new_Msg r RcodeServerFailure)\<lparr>RecursionAvailable := True\<rparr>
                         in Some (Return (reply_fresh E rs errMsg (w1\<lparr>w_net := n''\<rparr>)))
                     | ((None, None), n'') \<Rightarrow> Some Panic
                     | ((Some msg, None), n'') \<Rightarrow>
                         Some (cache_and_reply E rs cacheKey msg (w1\<lparr>w_net := n''\<rparr>))))))"

section \<open>Truncation\<close>

text \<open>Keeping the first \<open>k\<close> answers, and whether that is small enough to stop.\<close>

definition keep :: "nat \<Rightarrow> Msg \<Rightarrow> Msg" where
  "keep k msg = msg\<lparr>Answer := take k (Answer msg)\<rparr>"

definition fits :: "dnslib \<Rightarrow> Msg \<Rightarrow> bool" where
  "fits L msg \<longleftrightarrow> Answer msg = [] \<or> MsgLen L msg \<le> MaxMsgSize"

lemma keep_keep: "keep j (keep k msg) = keep (min j k) msg"
  by (simp add: keep_def)

lemma keep_all: "length (Answer msg) \<le> k \<Longrightarrow> keep k msg = msg"
  by (simp add: keep_def)

lemma Answer_keep [simp]: "Answer (keep k msg) = take k (Answer msg)"
  by (simp add: keep_def)

text \<open>
  The loop drops answers from the end until the message fits: when it starts with a message that
  is too large it keeps the longest proper prefix of the answers that fits.
\<close>

lemma truncate_loop_stop:
  "\<not> (msgSize > MaxMsgSize \<and> 0 < length (Answer msg)) \<Longrightarrow> truncate_loop L msg msgSize = msg"
  by (subst truncate_loop.simps) auto

lemma truncate_loop_prefix:
  "msgSize > MaxMsgSize \<Longrightarrow> 0 < length (Answer msg) \<Longrightarrow>
    \<exists>k < length (Answer msg). truncate_loop L msg msgSize = keep k msg \<and> fits L (keep k msg) \<and>
      (\<forall>j. k < j \<and> j < length (Answer msg) \<longrightarrow> \<not> fits L (keep j msg))"
proof (induction "length (Answer msg)" arbitrary: msg msgSize)
  case (Suc n)
  let ?msg = "keep n msg"
  have len: "length (Answer ?msg) = n" using Suc.hyps(2) by simp
  have step: "truncate_loop L msg msgSize = truncate_loop L ?msg (MsgLen L ?msg)"
    using Suc.prems by (subst truncate_loop.simps) (simp add: keep_def Let_def flip: Suc.hyps(2))
  show ?case
  proof (cases "fits L ?msg")
    case True
    then have "truncate_loop L ?msg (MsgLen L ?msg) = ?msg"
      by (intro truncate_loop_stop) (auto simp: fits_def)
    with step True Suc.hyps(2) show ?thesis by (intro exI [of _ n]) auto
  next
    case False
    then have "MsgLen L ?msg > MaxMsgSize" "0 < length (Answer ?msg)"
      by (auto simp: fits_def)
    from Suc.hyps(1) [OF len [symmetric] this] obtain k where k: "k < n"
      "truncate_loop L ?msg (MsgLen L ?msg) = keep k ?msg" "fits L (keep k ?msg)"
      "\<forall>j. k < j \<and> j < n \<longrightarrow> \<not> fits L (keep j ?msg)"
      unfolding len by blast
    have "\<not> fits L (keep j msg)" if "k < j" "j < Suc n" for j
      using k(4) False that by (cases "j = n") (auto simp: keep_keep min_def)
    with k step Suc.hyps(2) show ?thesis
      by (intro exI [of _ k]) (auto simp: keep_keep min_def)
  qed
qed simp

lemma fit_response_cases:
  obtains (asis) "fit_response L isTCP msg = msg" "isTCP \<or> fits L msg"
  | (cut) k where "\<not> isTCP" "\<not> fits L msg" "k < length (Answer msg)"
      "fit_response L isTCP msg = keep k (msg\<lparr>Truncated := True\<rparr>)"
      "fits L (fit_response L isTCP msg)"
      "\<forall>j. k < j \<and> j < length (Answer msg) \<longrightarrow> \<not> fits L (keep j (msg\<lparr>Truncated := True\<rparr>))"
proof (cases "isTCP \<or> fits L msg")
  case True
  then have "fit_response L isTCP msg = msg" by (auto simp: fit_response_def fits_def Let_def)
  with True show thesis by (rule_tac asis)
next
  case False
  then have big: "MsgLen L msg > MaxMsgSize" "0 < length (Answer (msg\<lparr>Truncated := True\<rparr>))"
    by (auto simp: fits_def)
  then have eq: "fit_response L isTCP msg = truncate_loop L (msg\<lparr>Truncated := True\<rparr>) (MsgLen L msg)"
    using False by (simp add: fit_response_def Let_def)
  from truncate_loop_prefix [OF big, of L] obtain k where
    k: "k < length (Answer msg)" "fit_response L isTCP msg = keep k (msg\<lparr>Truncated := True\<rparr>)"
      "fits L (keep k (msg\<lparr>Truncated := True\<rparr>))"
      "\<forall>j. k < j \<and> j < length (Answer msg) \<longrightarrow> \<not> fits L (keep j (msg\<lparr>Truncated := True\<rparr>))"
    unfolding eq by auto
  show thesis
    by (rule cut [OF _ _ k(1,2) _ k(4)]) (use False k in simp_all)
qed

text \<open>
  C21: What is written over UDP either fits into 512 bytes or has no answers left. When the reply is
  too large, the truncation flag is set and the longest proper prefix of the answers that fits is
  kept; nothing else changes. A reply that fits is written as it is.
\<close>

theorem fit_response_udp:
  "fits L (fit_response L False msg) \<and>
   (fits L msg \<longrightarrow> fit_response L False msg = msg) \<and>
   (\<not> fits L msg \<longrightarrow> (\<exists>k < length (Answer msg).
      fit_response L False msg = msg\<lparr>Truncated := True, Answer := take k (Answer msg)\<rparr> \<and>
      (\<forall>j. k < j \<and> j < length (Answer msg) \<longrightarrow>
        \<not> fits L (msg\<lparr>Truncated := True, Answer := take j (Answer msg)\<rparr>))))"
proof (cases rule: fit_response_cases [of L False msg])
  case asis
  then show ?thesis by simp
next
  case (cut k)
  have keep: "keep j (msg\<lparr>Truncated := True\<rparr>) = msg\<lparr>Truncated := True, Answer := take j (Answer msg)\<rparr>" for j
    by (simp add: keep_def)
  from cut(2-6) show ?thesis unfolding keep by blast
qed

text \<open>A message whose fifty address records take 1012 bytes.\<close>

definition large_Msg :: Msg where
  "large_Msg = new_Msg\<lparr>Answer := replicate 50 (mk_A ''www.'' ''10.0.0.1'')\<rparr>"

theorem fit_response_udp_witness:
  "\<not> fits sample_lib large_Msg \<and> fits sample_lib (fit_response sample_lib False large_Msg) \<and>
   Truncated (fit_response sample_lib False large_Msg)"
proof -
  have "\<not> fits sample_lib large_Msg"
    by (simp add: fits_def large_Msg_def sample_lib_def rr_size_def mk_A_def mk_header_def MaxMsgSize_def
        sum_list_replicate new_Msg_def)
  then show ?thesis using fit_response_udp [of sample_lib large_Msg] by auto
qed

text \<open>
  A reply over TCP is never truncated.
\<close>

theorem fit_response_tcp: "fit_response L True msg = msg"
  by (simp add: fit_response_def Let_def)

end
