(* ===== verification/CnameChain.thy ===== *)
theory CnameChain
  imports Handler
begin

text \<open>
  The loop of \<^verbatim>\<open>handleCNAME\<close> that follows a chain of local CNAME records: when it ends, what it
  collects, and that it runs for ever on a chain that comes back to itself.
\<close>

section \<open>Loops that chase a pointer\<close>

fun iterate :: "('s \<Rightarrow> 's option) \<Rightarrow> nat \<Rightarrow> 's \<Rightarrow> 's option" where
  "iterate f 0 s = Some s"
| "iterate f (Suc n) s = (case f s of None \<Rightarrow> None | Some s' \<Rightarrow> iterate f n s')"

lemma iterate_add:
  "iterate f (m + n) s = (case iterate f m s of None \<Rightarrow> None | Some s' \<Rightarrow> iterate f n s')"
  by (induction m arbitrary: s) (auto split: option.splits)

lemma iterate_last:
  "iterate f (Suc n) s = (case iterate f n s of None \<Rightarrow> None | Some u \<Rightarrow> f u)"
proof -
  have "iterate f 1 u = f u" for u by (cases "f u") simp_all
  then show ?thesis using iterate_add [of f n 1 s] by (simp only: Suc_eq_plus1)
qed

lemma iterate_None_mono: "iterate f m s = None \<Longrightarrow> m \<le> n \<Longrightarrow> iterate f n s = None"
  by (metis iterate_add le_iff_add option.case(1))

text \<open>
  The interface of such a loop: it stops where there is no next state, goes on with the next state
  where there is one, and returns only after finitely many steps. Whether it returns is then a
  question about the pointers alone.
\<close>

locale chase =
  fixes step :: "'s \<Rightarrow> 's option"
    and add :: "'s \<Rightarrow> 'a \<Rightarrow> 'a"
    and finish :: "'s \<Rightarrow> 'a \<Rightarrow> 'r"
    and run :: "'s \<Rightarrow> 'a \<Rightarrow> 'r option"
  assumes run_stop: "step s = None \<Longrightarrow> run s a = Some (finish s a)"
    and run_step: "step s = Some s' \<Longrightarrow> run s a = run s' (add s a)"
    and run_finite: "run s a = Some r \<Longrightarrow> \<exists>n. iterate step n s = None"
begin

lemma returns_iff_ends: "run s a \<noteq> None \<longleftrightarrow> (\<exists>n. iterate step n s = None)"
proof
  assume "\<exists>n. iterate step n s = None"
  then obtain n where "iterate step n s = None" ..
  then show "run s a \<noteq> None"
  proof (induction n arbitrary: s a)
    case (Suc n)
    then show ?case by (cases "step s") (auto simp: run_stop run_step)
  qed simp
qed (use run_finite in blast)

lemma revisit_never_ends:
  assumes "i < j" "iterate step i s = Some u" "iterate step j s = Some u"
  shows "run s a = None"
proof -
  obtain d where d: "j = i + d" "0 < d" using assms(1) by (metis less_imp_add_positive)
  then have loop: "iterate step d u = Some u" using assms by (simp add: iterate_add)
  have "iterate step (k * d) u = Some u" for k
    by (induction k) (simp_all add: iterate_add loop)
  then have "iterate step (i + n * d) s \<noteq> None" for n using assms(2) by (simp add: iterate_add)
  moreover have "n \<le> i + n * d" for n using d(2) by (cases d) auto
  ultimately have "iterate step n s \<noteq> None" for n by (metis iterate_None_mono)
  with returns_iff_ends [of s a] show ?thesis by metis
qed

text \<open>With finitely many states the loop runs for ever exactly when it visits a state twice.\<close>

lemma returns_iff_no_revisit:
  assumes "finite V" and "\<And>s s'. step s = Some s' \<Longrightarrow> s' \<in> V"
  shows "run s a \<noteq> None \<longleftrightarrow> \<not> (\<exists>i j u. i < j \<and> iterate step i s = Some u \<and> iterate step j s = Some u)"
proof (rule iffI)
  assume no: "\<not> (\<exists>i j u. i < j \<and> iterate step i s = Some u \<and> iterate step j s = Some u)"
  show "run s a \<noteq> None"
  proof
    assume "run s a = None"
    then have some: "iterate step n s \<noteq> None" for n using returns_iff_ends [of s a] by auto
    have inV: "u \<in> insert s V" if "iterate step n s = Some u" for n u
    proof (cases n)
      case (Suc m)
      with that have "iterate step (Suc m) s = Some u" by simp
      then obtain v where "step v = Some u" unfolding iterate_last by (auto split: option.splits)
      then show ?thesis using assms(2) by blast
    qed (use that in simp)
    let ?f = "\<lambda>n. the (iterate step n s)"
    have "?f n \<in> insert s V" for n using some [of n] inV [of n] by (metis option.collapse)
    then have "range ?f \<subseteq> insert s V" by blast
    then have "finite (range ?f)" using assms(1) by (metis finite.insertI finite_subset)
    then have "\<not> inj ?f" using finite_imageD infinite_UNIV_nat by blast
    then obtain i j where ij: "?f i = ?f j" "i < j"
      unfolding inj_def by (metis linorder_neqE_nat)
    have "iterate step i s = Some (?f i)" "iterate step j s = Some (?f i)"
      using some [of i] some [of j] ij(1) by auto
    with no ij(2) show False by blast
  qed
qed (use revisit_never_ends in metis)

text \<open>Every chain that gets closer to an end in each step ends.\<close>

lemma rank_returns:
  assumes "\<And>s s'. step s = Some s' \<Longrightarrow> rank s' < (rank s :: nat)"
  shows "run s a \<noteq> None"
proof (induction "rank s" arbitrary: s a rule: less_induct)
  case less
  then show ?case using assms by (cases "step s") (auto simp: run_stop run_step)
qed

lemma ends_at: "run s a \<noteq> None \<Longrightarrow> \<exists>n u. iterate step n s = Some u \<and> step u = None"
proof -
  assume "run s a \<noteq> None"
  then obtain n where "iterate step n s = None" using returns_iff_ends [of s a] by blast
  then show ?thesis
  proof (induction n arbitrary: s)
    case (Suc n)
    then show ?case by (metis iterate_last iterate.simps(1) option.case_eq_if option.collapse)
  qed simp
qed

text \<open>What has been collected when the loop stops after \<open>n\<close> steps.\<close>

fun collect :: "nat \<Rightarrow> 's \<Rightarrow> 'a \<Rightarrow> 'a" where
  "collect 0 s a = a"
| "collect (Suc n) s a = (case step s of None \<Rightarrow> a | Some s' \<Rightarrow> collect n s' (add s a))"

lemma run_collect:
  "iterate step n s = Some u \<Longrightarrow> step u = None \<Longrightarrow> run s a = Some (finish u (collect n s a))"
  by (induction n arbitrary: s a) (auto simp: run_stop run_step split: option.splits)

end

section \<open>The CNAME loop\<close>

text \<open>One round of the loop: the next target, or \<open>None\<close> where the loop is left.\<close>

definition cname_next :: "record_store \<Rightarrow> string \<Rightarrow> string option" where
  "cname_next recs target =
     (case records_Get recs target of
        None \<Rightarrow> None
      | Some rec \<Rightarrow>
          if Typ rec = records_CNAME then Some (Content rec @ ''.'')
          else if Typ rec = records_A then None
          else Some target)"

definition cname_add :: "record_store \<Rightarrow> string \<Rightarrow> RR list \<Rightarrow> RR list" where
  "cname_add recs target answer =
     (case records_Get recs target of
        None \<Rightarrow> answer
      | Some rec \<Rightarrow> if Typ rec = records_CNAME then answer @ [mk_CNAME target (Content rec @ ''.'')] else answer)"

definition cname_finish :: "record_store \<Rightarrow> string \<Rightarrow> RR list \<Rightarrow> chain_end" where
  "cname_finish recs target answer =
     (case records_Get recs target of
        None \<Rightarrow> Dangling target answer
      | Some rec \<Rightarrow> Resolved (answer @ [mk_A target (Content rec)]))"

lemmas cname_round_defs = cname_next_def cname_add_def cname_finish_def

lemma records_types_distinct [simp]: "records_CNAME \<noteq> records_A" "records_A \<noteq> records_CNAME"
  by (simp_all add: records_CNAME_def records_A_def)

lemma cname_loop_stop: "cname_next recs t = None \<Longrightarrow> cname_loop recs t ans = Some (cname_finish recs t ans)"
  by (subst cname_loop.simps) (auto simp: cname_round_defs split: option.splits if_splits)

lemma cname_loop_step: "cname_next recs t = Some t' \<Longrightarrow> cname_loop recs t ans = cname_loop recs t' (cname_add recs t ans)"
  by (subst cname_loop.simps) (auto simp: cname_round_defs split: option.splits if_splits)

lemma cname_loop_finite: "cname_loop recs t ans = Some r \<Longrightarrow> \<exists>n. iterate (cname_next recs) n t = None"
proof -
  assume "cname_loop recs t ans = Some r"
  then show ?thesis
  proof (rule cname_loop.raw_induct [rotated])
    fix loop :: "record_store \<Rightarrow> string \<Rightarrow> RR list \<Rightarrow> chain_end option" and recs t ans r
    assume IH: "\<And>recs t ans r. loop recs t ans = Some r \<Longrightarrow> \<exists>n. iterate (cname_next recs) n t = None"
      and body: "(case records_Get recs t of None \<Rightarrow> Some (Dangling t ans)
        | Some rec \<Rightarrow> if Typ rec = records_CNAME
            then loop recs (Content rec @ ''.'') (ans @ [mk_CNAME t (Content rec @ ''.'')])
            else if Typ rec = records_A then Some (Resolved (ans @ [mk_A t (Content rec)]))
            else loop recs t ans) = Some r"
    show "\<exists>n. iterate (cname_next recs) n t = None"
    proof (cases "cname_next recs t")
      case None
      then have "iterate (cname_next recs) 1 t = None" by simp
      then show ?thesis ..
    next
      case (Some t')
      with body obtain ans' where "loop recs t' ans' = Some r"
        by (auto simp: cname_next_def split: option.splits if_splits)
      then obtain n where "iterate (cname_next recs) n t' = None" using IH by blast
      with Some have "iterate (cname_next recs) (Suc n) t = None" by simp
      then show ?thesis ..
    qed
  qed
qed

interpretation cname: chase "cname_next recs" "cname_add recs" "cname_finish recs" "cname_loop recs" for recs
  by unfold_locales (simp_all add: cname_loop_stop cname_loop_step cname_loop_finite)


section \<open>When the loop ends\<close>

lemma cname_targets_finite: "store_ok recs \<Longrightarrow> finite ((\<lambda>r. Content r @ ''.'') ` ran recs)"
  by (simp add: store_ok_def finite_ran)

lemma cname_next_target:
  assumes "store_ok recs" "cname_next recs t = Some t'"
  shows "t' \<in> (\<lambda>r. Content r @ ''.'') ` ran recs"
proof -
  obtain r where r: "records_Get recs t = Some r" "t' = Content r @ ''.''"
    using assms store_okD(2) [OF assms(1)]
    by (auto simp: cname_next_def record_ok_def split: option.splits if_splits)
  then show ?thesis using records_Get_in_store by (auto simp: ran_def)
qed

text \<open>
  With the records of a well-formed store, following a CNAME chain ends exactly when no target
  is met twice: a chain that returns to an earlier target is the only way not to get a reply.
\<close>

theorem cname_loop_returns_iff:
  assumes "store_ok recs"
  shows "cname_loop recs t ans \<noteq> None \<longleftrightarrow>
    \<not> (\<exists>i j u. i < j \<and> iterate (cname_next recs) i t = Some u \<and> iterate (cname_next recs) j t = Some u)"
  by (rule cname.returns_iff_no_revisit [OF cname_targets_finite [OF assms] cname_next_target [OF assms]])

text \<open>Stores for concrete runs: a chain to an address, and a wildcard that points below itself.\<close>

definition chain_store :: record_store where
  "chain_store = [''www.local.'' \<mapsto> \<lparr>Typ = ''cname'', Content = ''web.local''\<rparr>,
     ''web.local.'' \<mapsto> \<lparr>Typ = ''a'', Content = ''10.0.0.1''\<rparr>]"

definition loop_store :: record_store where
  "loop_store = [''*.local.'' \<mapsto> \<lparr>Typ = ''cname'', Content = ''www.local''\<rparr>]"

lemma chain_store_Get:
  "records_Get chain_store ''www.local.'' = Some \<lparr>Typ = records_CNAME, Content = ''web.local''\<rparr>"
  "records_Get chain_store ''web.local.'' = Some \<lparr>Typ = records_A, Content = ''10.0.0.1''\<rparr>"
  by code_simp+

lemma loop_store_Get:
  "records_Get loop_store ''Mail.local.'' = Some \<lparr>Typ = records_CNAME, Content = ''www.local''\<rparr>"
  "records_Get loop_store ''www.local.'' = Some \<lparr>Typ = records_CNAME, Content = ''www.local''\<rparr>"
  by code_simp+

lemma chain_store_ok: "store_ok chain_store"
proof -
  have "normalizeName ''www.local.'' = ''www.local.''" "normalizeName ''web.local.'' = ''web.local.''"
    "ToLower ''web.local'' = ''web.local''" "ToLower ''10.0.0.1'' = ''10.0.0.1''"
    by code_simp+
  moreover have "ParseIP ''10.0.0.1'' \<noteq> None" by (simp add: ParseIP_eval)
  ultimately show ?thesis
    by (auto simp: store_ok_def chain_store_def record_ok_def records_CNAME_def records_A_def)
qed

lemma chain_store_next:
  "cname_next chain_store ''www.local.'' = Some ''web.local.''" "cname_next chain_store ''web.local.'' = None"
  by (simp_all add: cname_next_def chain_store_Get)

theorem cname_loop_returns_iff_witness: "cname_loop chain_store ''www.local.'' [] \<noteq> None"
proof -
  have "iterate (cname_next chain_store) (Suc (Suc n)) ''www.local.'' = None" for n
    by (simp add: chain_store_next)
  then have short: "n < 2" if "iterate (cname_next chain_store) n ''www.local.'' = Some u" for n u
    using that by (metis add_2_eq_Suc le_add_diff_inverse not_less option.distinct(1))
  have "\<not> (\<exists>i j u. i < j \<and> iterate (cname_next chain_store) i ''www.local.'' = Some u \<and>
      iterate (cname_next chain_store) j ''www.local.'' = Some u)"
  proof safe
    fix i j u
    assume ij: "i < j" "iterate (cname_next chain_store) i ''www.local.'' = Some u"
      "iterate (cname_next chain_store) j ''www.local.'' = Some u"
    then have "i = 0" "j = Suc 0" using short [of j u] by simp_all
    with ij(2,3) have "cname_next chain_store ''www.local.'' = Some ''www.local.''"
      by (auto split: option.splits)
    then show False by (simp add: chain_store_next)
  qed
  then show ?thesis using cname_loop_returns_iff [OF chain_store_ok, of "''www.local.''" "[]"] by blast
qed

text \<open>
  C24: A CNAME record that is found for its own target makes the loop run for ever. A wildcard
  record that points to a name below itself is such a record.
\<close>

theorem self_cname_never_returns:
  assumes "records_Get recs t = Some \<lparr>Typ = records_CNAME, Content = c\<rparr>"
    and "records_Get recs (c @ ''.'') = Some \<lparr>Typ = records_CNAME, Content = c\<rparr>"
  shows "cname_loop recs t ans = None"
proof -
  have "iterate (cname_next recs) 1 t = Some (c @ ''.'')" "iterate (cname_next recs) (1 + 1) t = Some (c @ ''.'')"
    unfolding iterate_add using assms by (simp_all add: cname_next_def)
  then show ?thesis by (rule cname.revisit_never_ends [rotated]) simp
qed

theorem self_cname_never_returns_witness: "cname_loop loop_store ''Mail.local.'' [] = None"
  by (rule self_cname_never_returns [where c = "''www.local''"]) (simp_all add: loop_store_Get)

section \<open>What the loop collects\<close>

fun cname_links :: "record_store \<Rightarrow> nat \<Rightarrow> string \<Rightarrow> RR list" where
  "cname_links recs 0 t = []"
| "cname_links recs (Suc n) t =
     (case cname_next recs t of None \<Rightarrow> [] | Some t' \<Rightarrow> mk_CNAME t t' # cname_links recs n t')"

lemma cname_add_link:
  "store_ok recs \<Longrightarrow> cname_next recs t = Some t' \<Longrightarrow> cname_add recs t ans = ans @ [mk_CNAME t t']"
  using store_okD(2) [of recs t]
  by (auto simp: cname_next_def cname_add_def record_ok_def split: option.splits if_splits)

lemma collect_links: "store_ok recs \<Longrightarrow> cname.collect recs n t ans = ans @ cname_links recs n t"
  by (induction n arbitrary: t ans) (auto simp: cname_add_link split: option.splits)

text \<open>
  A chain that ends after \<open>n\<close> records, at the name \<open>u\<close>, yields one CNAME record per step, in
  the order of the chain, and then the address record of \<open>u\<close>, or \<open>u\<close> as the name to ask the
  upstream servers for when it has no local record.
\<close>

theorem cname_loop_result:
  assumes "store_ok recs"
    and "iterate (cname_next recs) n t = Some u" and "cname_next recs u = None"
  shows "cname_loop recs t ans = Some (case records_Get recs u of
      None \<Rightarrow> Dangling u (ans @ cname_links recs n t)
    | Some rec \<Rightarrow> Resolved (ans @ cname_links recs n t @ [mk_A u (Content rec)]))"
  using cname.run_collect [OF assms(2,3)] assms(1)
  by (simp add: collect_links cname_finish_def split: option.splits)


theorem cname_loop_result_witness:
  "cname_loop chain_store ''www.local.'' [] =
     Some (Resolved [mk_CNAME ''www.local.'' ''web.local.'', mk_A ''web.local.'' ''10.0.0.1''])"
  by (subst cname_loop_result [OF chain_store_ok, of 1 _ "''web.local.''"])
    (simp_all add: chain_store_next chain_store_Get)

text \<open>
  The answers of a reply are linked when each record belongs to the name the previous record
  points to, and an address ends the list.
\<close>

fun linked :: "string \<Rightarrow> RR list \<Rightarrow> bool" where
  "linked name [] \<longleftrightarrow> True"
| "linked name (RR_CNAME h target # rrs) \<longleftrightarrow> hName h = name \<and> linked target rrs"
| "linked name (RR_A h ip # rrs) \<longleftrightarrow> hName h = name \<and> ip \<noteq> None \<and> rrs = []"
| "linked name (RR_Other h d # rrs) \<longleftrightarrow> False"
| "linked name (RR_AAAA h ip # rrs) \<longleftrightarrow> False"

lemma linked_mk_CNAME [simp]: "linked name (mk_CNAME n t # rrs) \<longleftrightarrow> n = name \<and> linked t rrs"
  by (simp add: mk_CNAME_def mk_header_def)

lemma linked_mk_A [simp]: "linked name (mk_A n c # rrs) \<longleftrightarrow> n = name \<and> ParseIP c \<noteq> None \<and> rrs = []"
  by (simp add: mk_A_def mk_header_def)

lemma linked_links:
  "iterate (cname_next recs) n t = Some u \<Longrightarrow> linked t (cname_links recs n t @ rrs) \<longleftrightarrow> linked u rrs"
  by (induction n arbitrary: t) (auto split: option.splits)

lemma links_length: "iterate (cname_next recs) n t = Some u \<Longrightarrow> length (cname_links recs n t) = n"
  by (induction n arbitrary: t) (auto split: option.splits)

text \<open>Where the loop ends when it returns: at the last target, which has an address record or no record.\<close>

lemma cname_loop_Some:
  assumes "store_ok recs" "cname_loop recs t ans = Some r"
  obtains (local_end) k u rec where "iterate (cname_next recs) k t = Some u" "records_Get recs u = Some rec" "Typ rec = records_A"
      "ParseIP (Content rec) \<noteq> None" "r = Resolved (ans @ cname_links recs k t @ [mk_A u (Content rec)])"
  | (remote_end) k u where "iterate (cname_next recs) k t = Some u" "records_Get recs u = None"
      "r = Dangling u (ans @ cname_links recs k t)"
proof -
  obtain k u where ku: "iterate (cname_next recs) k t = Some u" "cname_next recs u = None"
    using cname.ends_at [of recs t ans] assms(2) by auto
  note res = cname.run_collect [OF ku, of ans, unfolded collect_links [OF assms(1)] assms(2)]
  show thesis
  proof (cases "records_Get recs u")
    case None
    then show thesis using res ku(1) by (intro remote_end) (auto simp: cname_finish_def)
  next
    case (Some rec)
    then have "Typ rec = records_A" using ku(2) by (auto simp: cname_next_def split: if_splits)
    moreover from this have "ParseIP (Content rec) \<noteq> None"
      using store_okD(2) [OF assms(1) Some] by (simp add: record_ok_def)
    ultimately show thesis using res Some ku(1) by (intro local_end) (auto simp: cname_finish_def)
  qed
qed

text \<open>
  C12: The reply for a name with a local CNAME record answers the request (its ID, recursion
  available, success). Let \<open>t\<close> be the target of that record and \<open>u\<close> the name that following the local CNAME
  records from \<open>t\<close> leads to, after \<open>k\<close> of them. The answers are the record of the queried name, the \<open>k\<close> records of the
  chain in order, each owned by the target of the one before, and then: when \<open>u\<close> has a local address record, exactly its
  address, in an authoritative reply made without asking any upstream server; when \<open>u\<close> has no local
  record, exactly what the upstream servers answered for \<open>u\<close>, or nothing when they failed. There is no third case.
\<close>

theorem handleCNAME_reply:
  assumes "dns_contract (dlib E)" and "store_ok recs"
    and "handleCNAME E h recs rs r rec n = Some (Return (m, n'))" and "t = Content rec @ ''.''"
  shows "MsgId m = MsgId r \<and> RecursionAvailable m \<and> Rcode m = 0 \<and>
    (\<exists>k u rest. iterate (cname_next recs) k t = Some u \<and>
       Answer m = mk_CNAME (queryName rs) t # cname_links recs k t @ rest \<and>
       length (cname_links recs k t) = k \<and> linked (queryName rs) (mk_CNAME (queryName rs) t # cname_links recs k t) \<and>
       (case records_Get recs u of
          Some addr \<Rightarrow> Typ addr = records_A \<and> Authoritative m \<and> n' = n \<and> rest = [mk_A u (Content addr)] \<and>
            linked (queryName rs) (Answer m)
        | None \<Rightarrow> \<not> Authoritative m \<and> (\<exists>resp e.
            Forward (Exchange E) (forwarder h) (SetQuestion (dlib E) new_Msg u TypeA) n = ((resp, e), n') \<and>
            rest = (if e = None then Answer (the resp) else []))))"
proof -
  note cs = contract_simps [OF assms(1)]
  have new: "Answer new_Msg = []" "\<not> Authoritative new_Msg" by (simp_all add: new_Msg_def)
  let ?ans = "[mk_CNAME (queryName rs) t]"
  obtain ce where ce: "cname_loop recs t ?ans = Some ce"
    using assms(3,4) by (auto simp: handleCNAME_def Let_def cs new split: option.splits)
  from assms(2) ce show ?thesis
  proof (cases rule: cname_loop_Some [of recs t ?ans ce])
    case (local_end k u addr)
    then have "m = (SetReply (dlib E) new_Msg r)\<lparr>RecursionAvailable := True,
        Answer := ?ans @ cname_links recs k t @ [mk_A u (Content addr)], Authoritative := True\<rparr> \<and> n' = n"
      using assms(3) ce by (simp add: handleCNAME_def Let_def cs new flip: assms(4))
    then show ?thesis
      using local_end links_length [OF local_end(1)] linked_links [OF local_end(1)]
        linked_links [OF local_end(1), of "[]"]
      by (intro conjI exI [of _ k] exI [of _ u] exI [of _ "[mk_A u (Content addr)]"]) (simp_all add: cs)
  next
    case (remote_end k u)
    obtain resp e n2 where fw: "Forward (Exchange E) (forwarder h) (SetQuestion (dlib E) new_Msg u TypeA) n = ((resp, e), n2)"
      by (metis prod.exhaust)
    then have "m = (SetReply (dlib E) new_Msg r)\<lparr>RecursionAvailable := True,
        Answer := ?ans @ cname_links recs k t @ (if e = None then Answer (the resp) else [])\<rparr> \<and> n' = n2"
      using assms(3) ce remote_end
      by (auto simp: handleCNAME_def Let_def cs new simp flip: assms(4) split: option.splits)
    then show ?thesis
      using remote_end fw links_length [OF remote_end(1)] linked_links [OF remote_end(1), of "[]"]
      by (intro conjI exI [of _ k] exI [of _ u] exI [of _ "if e = None then Answer (the resp) else []"]) (simp_all add: cs new)
  qed
qed

text \<open>A request, an environment without network and a handler for concrete runs.\<close>

definition sample_request :: "string \<Rightarrow> u16 \<Rightarrow> Msg" where
  "sample_request name t =
     new_Msg\<lparr>MsgId := 42, RecursionDesired := True, Questions := [\<lparr>qName = name, Qtype = t, Qclass = ClassINET\<rparr>]\<rparr>"

definition sample_env :: "(string \<Rightarrow> Msg option) \<Rightarrow> nat env" where
  "sample_env answers =
     \<lparr>dlib = sample_lib, Exchange = sample_exchanger answers, Now = (\<lambda>n. 1700000000000000000 + int n)\<rparr>"

definition sample_handler :: Handler where
  "sample_handler = \<lparr>forwarder = forward_New [''9.9.9.9:53'', ''1.1.1.1:53''], listen = ''127.0.0.1:5300''\<rparr>"

definition sample_client :: net_addr where
  "sample_client = \<lparr>Network = ''udp'', AddrString = ''10.0.0.7:40000''\<rparr>"

lemma sample_env_simps [simp]:
  "dlib (sample_env answers) = sample_lib" "Exchange (sample_env answers) = sample_exchanger answers"
  "Now (sample_env answers) n = 1700000000000000000 + int n"
  by (simp_all add: sample_env_def)

lemma sample_request_simps [simp]:
  "MsgId (sample_request name t) = 42"
  "Questions (sample_request name t) = [\<lparr>qName = name, Qtype = t, Qclass = ClassINET\<rparr>]"
  by (simp_all add: sample_request_def)

lemma sample_SetReply_Answer [simp]: "Answer (SetReply sample_lib m r) = Answer m"
  by (simp add: sample_lib_def sample_reply_def)

theorem handleCNAME_reply_witness:
  "\<exists>m. handleCNAME (sample_env Map.empty) sample_handler chain_store
      \<lparr>clientIP = None, queryName = ''alias.'', queryType = TypeA, rs_remote = sample_client\<rparr>
      (sample_request ''alias.'' TypeA) \<lparr>Typ = records_CNAME, Content = ''www.local''\<rparr> 0 = Some (Return (m, 0)) \<and>
    MsgId m = 42 \<and> Answer m =
      [mk_CNAME ''alias.'' ''www.local.'', mk_CNAME ''www.local.'' ''web.local.'', mk_A ''web.local.'' ''10.0.0.1'']"
proof -
  let ?rs = "\<lparr>clientIP = None, queryName = ''alias.'', queryType = TypeA, rs_remote = sample_client\<rparr>"
  let ?rec = "\<lparr>Typ = records_CNAME, Content = ''www.local''\<rparr>"
  have loop: "cname_loop chain_store ''www.local.'' ans =
      Some (Resolved (ans @ [mk_CNAME ''www.local.'' ''web.local.'', mk_A ''web.local.'' ''10.0.0.1'']))" for ans
    using cname_loop_result [OF chain_store_ok, of 1 "''www.local.''" "''web.local.''" ans] by (simp add: chain_store_next chain_store_Get)
  obtain m where m: "handleCNAME (sample_env Map.empty) sample_handler chain_store ?rs
      (sample_request ''alias.'' TypeA) ?rec (0::nat) = Some (Return (m, 0))"
    by (simp add: handleCNAME_def Let_def loop)
  have "dns_contract (dlib (sample_env Map.empty))" by (simp add: sample_lib_contract)
  from handleCNAME_reply [OF this chain_store_ok m refl] obtain k u rest where
    k: "iterate (cname_next chain_store) k ''www.local.'' = Some u" "MsgId m = 42"
      "Answer m = mk_CNAME ''alias.'' ''www.local.'' # cname_links chain_store k ''www.local.'' @ rest"
    and e: "records_Get chain_store u = Some addr \<Longrightarrow> Typ addr = records_A \<and> rest = [mk_A u (Content addr)]" for addr
    by (force split: option.splits)
  have "u = ''web.local.'' \<and> k = 1"
  proof (cases k)
    case 0
    then have "Typ \<lparr>Typ = records_CNAME, Content = ''web.local''\<rparr> = records_A" using k(1) e chain_store_Get(1) by fastforce
    then show ?thesis by (simp add: records_CNAME_def records_A_def)
  next
    case (Suc i)
    then show ?thesis using k(1) by (cases i) (simp_all add: chain_store_next)
  qed
  with k e [of "\<lparr>Typ = records_A, Content = ''10.0.0.1''\<rparr>"] m show ?thesis
    by (simp add: chain_store_Get chain_store_next)
qed

end
