(* ===== verification/Requests.thy ===== *)
theory Requests
  imports CnameChain
begin

text \<open>
  Requests as a whole: a relation with one rule per way a request is served, the lemma that
  \<^verbatim>\<open>HandleDNSRequest\<close> implements it, and what follows from it for every request and for sequences
  of requests.
\<close>

section \<open>The ways a request is served\<close>

definition request_key :: "net_addr \<Rightarrow> Question \<Rightarrow> string" where
  "request_key remote q = cacheKeyFor (qName q) (Qtype q) (protocol_of remote)"

definition no_local :: "record_store \<Rightarrow> string \<Rightarrow> bool" where
  "no_local recs name \<longleftrightarrow>
     (\<forall>rec. records_Get recs name = Some rec \<longrightarrow> Typ rec \<noteq> records_CNAME \<and> Typ rec \<noteq> records_A)"

text \<open>The message as it is written to a client, and a reply that is stored and written.\<close>

definition written :: "'n env \<Rightarrow> net_addr \<Rightarrow> Msg \<Rightarrow> Msg" where
  "written E remote msg = fit_response (dlib E) (Network remote = ''tcp'') msg"

definition send :: "net_addr \<Rightarrow> Msg \<Rightarrow> 'n world \<Rightarrow> 'n world" where
  "send remote msg w = w\<lparr>w_sent := w_sent w @ [(remote, msg)]\<rparr>"

definition store_and_send :: "'n env \<Rightarrow> net_addr \<Rightarrow> string \<Rightarrow> Msg \<Rightarrow> 'n world \<Rightarrow> 'n world" where
  "store_and_send E remote key msg w =
     send remote (written E remote msg)
       (w\<lparr>w_heap := w_heap w @ [written E remote msg],
          w_cache := cache_put (w_heap w @ [msg]) (w_cache w) (Now E (w_net w)) key (length (w_heap w))\<rparr>)"

inductive serves ::
    "'n env \<Rightarrow> Handler \<Rightarrow> net_addr \<Rightarrow> Msg option \<Rightarrow> 'n world \<Rightarrow> 'n world \<Rightarrow> bool"
  for E h remote where
  malformed:
    "req = None \<or> Questions (the req) = [] \<Longrightarrow>
     serves E h remote req w (send remote (format_error E req) w)"
| local_reply:
    "Questions r = q # qs \<Longrightarrow>
     handleLocalRecord E h (w_records w) (request_state remote q) r (w_net w) = Some (Return (Some msg, n)) \<Longrightarrow>
     serves E h remote (Some r) w (store_and_send E remote (request_key remote q) msg (w\<lparr>w_net := n\<rparr>))"
| blocked:
    "Questions r = q # qs \<Longrightarrow> no_local (w_records w) (qName q) \<Longrightarrow> ShouldBlock (w_filter w) (qName q) \<Longrightarrow>
     msg = (SetRcode (dlib E) new_Msg r RcodeNameError)\<lparr>RecursionAvailable := True\<rparr> \<Longrightarrow>
     serves E h remote (Some r) w (send remote (written E remote msg)
       (w\<lparr>w_filter := LogBlocked (dlib E) (Now E (w_net w)) (w_filter w) (AddrString remote) (qName q) (Qtype q)\<rparr>))"
| cache_hit:
    "Questions r = q # qs \<Longrightarrow> no_local (w_records w) (qName q) \<Longrightarrow> \<not> ShouldBlock (w_filter w) (qName q) \<Longrightarrow>
     cache_Get (w_heap w) (w_cache w) (Now E (w_net w)) (request_key remote q) = Return (Some ref) \<Longrightarrow>
     msg = (MsgCopy (dlib E) (w_heap w ! ref))\<lparr>MsgId := MsgId r, RecursionAvailable := True\<rparr> \<Longrightarrow>
     serves E h remote (Some r) w (send remote (written E remote msg) w)"
| upstream_failed:
    "Questions r = q # qs \<Longrightarrow> no_local (w_records w) (qName q) \<Longrightarrow> \<not> ShouldBlock (w_filter w) (qName q) \<Longrightarrow>
     cache_Get (w_heap w) (w_cache w) (Now E (w_net w)) (request_key remote q) = Return None \<Longrightarrow>
     Forward (Exchange E) (forwarder h) r (w_net w) = ((resp, Some err), n) \<Longrightarrow>
     msg = (SetRcode (dlib E) new_Msg r RcodeServerFailure)\<lparr>RecursionAvailable := True\<rparr> \<Longrightarrow>
     serves E h remote (Some r) w (send remote (written E remote msg) (w\<lparr>w_net := n\<rparr>))"
| forwarded:
    "Questions r = q # qs \<Longrightarrow> no_local (w_records w) (qName q) \<Longrightarrow> \<not> ShouldBlock (w_filter w) (qName q) \<Longrightarrow>
     cache_Get (w_heap w) (w_cache w) (Now E (w_net w)) (request_key remote q) = Return None \<Longrightarrow>
     Forward (Exchange E) (forwarder h) r (w_net w) = ((Some msg, None), n) \<Longrightarrow>
     serves E h remote (Some r) w (store_and_send E remote (request_key remote q) msg (w\<lparr>w_net := n\<rparr>))"

section \<open>The handler implements the relation\<close>

lemma request_state_simps [simp]:
  "queryName (request_state remote q) = qName q" "queryType (request_state remote q) = Qtype q"
  "rs_remote (request_state remote q) = remote"
  by (simp_all add: request_state_def)

lemma reply_fresh_send: "reply_fresh E (request_state remote q) msg w = send remote (written E remote msg) w"
  by (simp add: reply_fresh_def writeResponse_def send_def written_def Let_def)

lemma cache_and_reply_send:
  "cache_and_reply E (request_state remote q) key msg w = Return (store_and_send E remote key msg w)"
  by (simp add: cache_and_reply_def alloc_def cache_Set_put writeResponse_def store_and_send_def send_def
      written_def Let_def)

lemma handleLocalRecord_None:
  "handleLocalRecord E h recs rs r n = Some (Return (None, n')) \<longleftrightarrow> n' = n \<and> no_local recs (queryName rs)"
  by (auto simp: handleLocalRecord_def no_local_def bind_outcome_Return_iff split: option.splits)

text \<open>The local records decide alone when they answer, do not return or panic.\<close>

lemma HandleDNSRequest_local:
  assumes "Questions r = q # qs"
    and "handleLocalRecord E h (w_records w) (request_state remote q) r (w_net w) = res"
    and "\<And>n. res \<noteq> Some (Return (None, n))"
  shows "HandleDNSRequest E h remote (Some r) w =
    (case res of
       None \<Rightarrow> None
     | Some Panic \<Rightarrow> Some Panic
     | Some (Return (m, n)) \<Rightarrow>
         Some (Return (store_and_send E remote (request_key remote q) (the m) (w\<lparr>w_net := n\<rparr>))))"
  using assms
  by (auto simp: HandleDNSRequest_def Let_def cache_and_reply_send request_key_def
      split: option.splits outcome.splits)

text \<open>Without a local answer the filter, the cache and the upstream servers are asked in this order.\<close>

lemma HandleDNSRequest_nonlocal:
  assumes "Questions r = q # qs" and "no_local (w_records w) (qName q)"
  shows "HandleDNSRequest E h remote (Some r) w =
    (if ShouldBlock (w_filter w) (qName q) then
       Some (Return (send remote (written E remote ((SetRcode (dlib E) new_Msg r RcodeNameError)\<lparr>RecursionAvailable := True\<rparr>))
         (w\<lparr>w_filter := LogBlocked (dlib E) (Now E (w_net w)) (w_filter w) (AddrString remote) (qName q) (Qtype q)\<rparr>)))
     else (case cache_Get (w_heap w) (w_cache w) (Now E (w_net w)) (request_key remote q) of
         Panic \<Rightarrow> Some Panic
       | Return (Some ref) \<Rightarrow>
           Some (Return (send remote (written E remote
             ((MsgCopy (dlib E) (w_heap w ! ref))\<lparr>MsgId := MsgId r, RecursionAvailable := True\<rparr>)) w))
       | Return None \<Rightarrow>
           (case Forward (Exchange E) (forwarder h) r (w_net w) of
              ((_, Some err), n) \<Rightarrow>
                Some (Return (send remote (written E remote
                  ((SetRcode (dlib E) new_Msg r RcodeServerFailure)\<lparr>RecursionAvailable := True\<rparr>)) (w\<lparr>w_net := n\<rparr>)))
            | ((None, None), n) \<Rightarrow> Some Panic
            | ((Some msg, None), n) \<Rightarrow>
                Some (Return (store_and_send E remote (request_key remote q) msg (w\<lparr>w_net := n\<rparr>))))))"
proof -
  have loc: "handleLocalRecord E h (w_records w) (request_state remote q) r (w_net w) = Some (Return (None, w_net w))"
    using assms(2) by (simp add: handleLocalRecord_None)
  have flt: "w_filter w \<noteq> None \<and> ShouldBlock (w_filter w) (qName q) \<longleftrightarrow> ShouldBlock (w_filter w) (qName q)"
    by (cases "w_filter w") simp_all
  obtain resp e n where fw: "Forward (Exchange E) (forwarder h) r (w_net w) = ((resp, e), n)"
    by (metis prod.exhaust)
  have same: "w\<lparr>w_net := w_net w\<rparr> = w" by simp
  show ?thesis
    using assms(1) loc flt same
    by (cases resp; cases e)
      (simp_all add: HandleDNSRequest_def Let_def checkCache_def reply_fresh_send cache_and_reply_send request_key_def fw
        split: option.splits outcome.splits)
qed


lemma HandleDNSRequest_malformed:
  "req = None \<or> Questions (the req) = [] \<Longrightarrow>
   HandleDNSRequest E h remote req w = Some (Return (send remote (format_error E req) w))"
  by (simp add: HandleDNSRequest_def send_def)

lemma serves_sound: "serves E h remote req w w' \<Longrightarrow> HandleDNSRequest E h remote req w = Some (Return w')"
  by (induction rule: serves.induct)
    (simp_all add: HandleDNSRequest_malformed HandleDNSRequest_local HandleDNSRequest_nonlocal split: option.splits)

lemma miss_serves:
  assumes r: "Questions r = q # qs" "no_local (w_records w) (qName q)" "\<not> ShouldBlock (w_filter w) (qName q)"
    "cache_Get (w_heap w) (w_cache w) (Now E (w_net w)) (request_key remote q) = Return None"
    and ret: "HandleDNSRequest E h remote (Some r) w = Some (Return w')"
  shows "serves E h remote (Some r) w w'"
proof -
  note res = ret [unfolded HandleDNSRequest_nonlocal [OF r(1,2)]]
  obtain resp e n where fw: "Forward (Exchange E) (forwarder h) r (w_net w) = ((resp, e), n)"
    by (metis prod.exhaust)
  show ?thesis
  proof (cases e)
    case (Some err)
    then have "w' = send remote (written E remote
        ((SetRcode (dlib E) new_Msg r RcodeServerFailure)\<lparr>RecursionAvailable := True\<rparr>)) (w\<lparr>w_net := n\<rparr>)"
      using res r fw by (cases resp) simp_all
    then show ?thesis
      using serves.upstream_failed [OF r fw [unfolded Some] refl] by simp
  next
    case None
    then obtain msg where "resp = Some msg" using res r fw by (cases resp) simp_all
    with None res r fw have "w' = store_and_send E remote (request_key remote q) msg (w\<lparr>w_net := n\<rparr>)"
      by simp
    then show ?thesis
      using serves.forwarded [OF r fw [unfolded None \<open>resp = _\<close>]] by simp
  qed
qed

lemma nonlocal_serves:
  assumes r: "Questions r = q # qs" "no_local (w_records w) (qName q)"
    and ret: "HandleDNSRequest E h remote (Some r) w = Some (Return w')"
  shows "serves E h remote (Some r) w w'"
proof -
  note res = ret [unfolded HandleDNSRequest_nonlocal [OF r]]
  consider (block) "ShouldBlock (w_filter w) (qName q)"
    | (hit) ref where "\<not> ShouldBlock (w_filter w) (qName q)"
      "cache_Get (w_heap w) (w_cache w) (Now E (w_net w)) (request_key remote q) = Return (Some ref)"
    | (miss) "\<not> ShouldBlock (w_filter w) (qName q)"
      "cache_Get (w_heap w) (w_cache w) (Now E (w_net w)) (request_key remote q) = Return None"
    using res by (auto split: if_splits outcome.splits option.splits)
  then show ?thesis
  proof cases
    case block
    with res serves.blocked [OF r block refl, of E h remote] show ?thesis by auto
  next
    case hit
    with res serves.cache_hit [OF r hit refl, of h] show ?thesis by auto
  next
    case miss
    then show ?thesis using miss_serves r ret by blast
  qed
qed

lemma local_serves:
  assumes r: "Questions r = q # qs" and "\<not> no_local (w_records w) (qName q)"
    and ret: "HandleDNSRequest E h remote (Some r) w = Some (Return w')"
  shows "serves E h remote (Some r) w w'"
proof -
  have loc: "handleLocalRecord E h (w_records w) (request_state remote q) r (w_net w) \<noteq> Some (Return (None, n))" for n
    using assms(2) by (simp add: handleLocalRecord_None)
  obtain a n where a: "handleLocalRecord E h (w_records w) (request_state remote q) r (w_net w) = Some (Return (a, n))"
    using ret HandleDNSRequest_local [OF r refl loc] by (auto split: option.splits outcome.splits)
  with loc [of n] obtain m where
    m: "handleLocalRecord E h (w_records w) (request_state remote q) r (w_net w) = Some (Return (Some m, n))"
    by (cases a) simp_all
  then show ?thesis
    using serves.local_reply [OF r m] ret HandleDNSRequest_local [OF r m] by simp
qed

lemma serves_complete:
  "HandleDNSRequest E h remote req w = Some (Return w') \<Longrightarrow> serves E h remote req w w'"
proof (cases "req = None \<or> Questions (the req) = []")
  case True
  moreover assume "HandleDNSRequest E h remote req w = Some (Return w')"
  ultimately show ?thesis using serves.malformed [of req E h remote w] by (simp add: HandleDNSRequest_malformed)
next
  case False
  then obtain r q qs where "req = Some r" "Questions r = q # qs"
    by (metis list.exhaust option.collapse)
  moreover assume "HandleDNSRequest E h remote req w = Some (Return w')"
  ultimately show ?thesis using nonlocal_serves local_serves by blast
qed

text \<open>
  C4: The handler implements the rules exactly: a request returns with a new state if and only if one
  of the six rules serves it with that state, in the order local records, filter, cache, upstream.
\<close>

theorem HandleDNSRequest_serves:
  "HandleDNSRequest E h remote req w = Some (Return w') \<longleftrightarrow> serves E h remote req w w'"
  using serves_sound serves_complete by blast


section \<open>Every request\<close>

lemma send_simps [simp]:
  "w_sent (send remote msg w) = w_sent w @ [(remote, msg)]" "w_records (send remote msg w) = w_records w"
  "w_heap (send remote msg w) = w_heap w" "w_cache (send remote msg w) = w_cache w"
  "w_filter (send remote msg w) = w_filter w" "w_net (send remote msg w) = w_net w"
  by (simp_all add: send_def)

lemma store_and_send_simps [simp]:
  "w_sent (store_and_send E remote key msg w) = w_sent w @ [(remote, written E remote msg)]"
  "w_records (store_and_send E remote key msg w) = w_records w"
  "w_heap (store_and_send E remote key msg w) = w_heap w @ [written E remote msg]"
  "w_cache (store_and_send E remote key msg w) =
     (w_cache w)(key \<mapsto> \<lparr>EntryMsg = length (w_heap w), ExpiresAt = Now E (w_net w) + sint (msg_ttl msg)\<rparr>)"
  "w_filter (store_and_send E remote key msg w) = w_filter w"
  "w_net (store_and_send E remote key msg w) = w_net w"
  by (simp_all add: store_and_send_def cache_put_def)

text \<open>Writing a message changes at most its truncation flag and its answers.\<close>

lemma written_cases: "written E remote msg = msg \<or> (\<exists>k. written E remote msg = keep k (msg\<lparr>Truncated := True\<rparr>))"
  unfolding written_def by (cases rule: fit_response_cases [of "dlib E" "Network remote = ''tcp''" msg]) auto

lemma written_fields [simp]:
  "MsgId (written E remote msg) = MsgId msg" "Questions (written E remote msg) = Questions msg"
  "Rcode (written E remote msg) = Rcode msg" "Authoritative (written E remote msg) = Authoritative msg"
  "RecursionAvailable (written E remote msg) = RecursionAvailable msg"
  using written_cases [of E remote msg] by (auto simp: keep_def)

lemma written_fits: "Network remote \<noteq> ''tcp'' \<Longrightarrow> fits (dlib E) (written E remote msg)"
  unfolding written_def by (cases rule: fit_response_cases [of "dlib E" "Network remote = ''tcp''" msg]) auto

lemma handleCNAME_header:
  assumes "handleCNAME E h recs rs r rec n = Some (Return (m, n'))"
  shows "MsgId m = MsgId (SetReply (dlib E) new_Msg r)" "Questions m = Questions (SetReply (dlib E) new_Msg r)"
    "Rcode m = Rcode (SetReply (dlib E) new_Msg r)"
  using assms by (auto simp: handleCNAME_def Let_def split: option.splits chain_end.splits prod.splits)

lemma local_reply_header:
  assumes "dns_contract (dlib E)" "handleLocalRecord E h recs rs r n = Some (Return (Some m, n'))"
  shows "MsgId m = MsgId r" "Questions r \<noteq> [] \<Longrightarrow> Questions m \<noteq> []" "Rcode m = 0"
proof -
  consider rec where "handleCNAME E h recs rs r rec n = Some (Return (m, n'))" | rec where "m = handleA E rs r rec"
    using assms(2) by (auto simp: handleLocalRecord_def bind_outcome_Return_iff split: option.splits if_splits)
  then have "MsgId m = MsgId r \<and> (Questions r \<noteq> [] \<longrightarrow> Questions m \<noteq> []) \<and> Rcode m = 0"
    by cases (use contract_simps [OF assms(1)] in
        \<open>auto simp: handleA_def Let_def dest: handleCNAME_header\<close>)
  then show "MsgId m = MsgId r" "Questions r \<noteq> [] \<Longrightarrow> Questions m \<noteq> []" "Rcode m = 0" by auto
qed

text \<open>
  C8: A request that returns is answered exactly once, to the client that sent it and with the ID
  of the request, and it leaves the local records alone.
\<close>

theorem HandleDNSRequest_one_reply:
  assumes "dns_contract (dlib E)" and "id_checked (Exchange E)"
    and "HandleDNSRequest E h remote req w = Some (Return w')"
  shows "\<exists>m. w_sent w' = w_sent w @ [(remote, m)] \<and> w_records w' = w_records w \<and>
    (\<forall>r. req = Some r \<longrightarrow> MsgId m = MsgId r)"
  using serves_complete [OF assms(3)]
proof cases
  case malformed
  then show ?thesis by (auto simp: format_error_def contract_simps [OF assms(1)] split: option.splits)
next
  case forwarded
  then show ?thesis using Forward_satisfies [OF assms(2) [unfolded id_checked_def]] by auto
qed (auto simp: contract_simps [OF assms(1)] local_reply_header [OF assms(1)])

text \<open>A world for concrete runs, with an empty cache.\<close>

definition sample_world :: "record_store \<Rightarrow> Filter option \<Rightarrow> nat world" where
  "sample_world recs flt =
     \<lparr>w_records = recs, w_heap = [], w_cache = cache_New, w_filter = flt, w_net = 0, w_sent = []\<rparr>"

lemma sample_world_simps [simp]:
  "w_records (sample_world recs flt) = recs" "w_heap (sample_world recs flt) = []"
  "w_cache (sample_world recs flt) = Map.empty" "w_filter (sample_world recs flt) = flt"
  "w_net (sample_world recs flt) = 0" "w_sent (sample_world recs flt) = []"
  by (simp_all add: sample_world_def cache_New_def)

lemma sample_local_returns:
  "\<exists>w'. HandleDNSRequest (sample_env answers) sample_handler sample_client
     (Some (sample_request ''web.local.'' TypeA)) (sample_world chain_store flt) = Some (Return w')"
proof -
  let ?q = "\<lparr>qName = ''web.local.'', Qtype = TypeA, Qclass = ClassINET\<rparr>"
  have "handleLocalRecord (sample_env answers) sample_handler chain_store (request_state sample_client ?q)
      (sample_request ''web.local.'' TypeA) 0 =
      Some (Return (Some (handleA (sample_env answers) (request_state sample_client ?q)
        (sample_request ''web.local.'' TypeA) \<lparr>Typ = records_A, Content = ''10.0.0.1''\<rparr>), 0))"
    by (simp add: handleLocalRecord_def chain_store_Get)
  then show ?thesis
    using HandleDNSRequest_local [of "sample_request ''web.local.'' TypeA" ?q "[]" _ sample_handler
        "sample_world chain_store flt" sample_client, OF _ refl] by simp
qed

theorem HandleDNSRequest_one_reply_witness:
  "\<exists>w' m. HandleDNSRequest (sample_env Map.empty) sample_handler sample_client
       (Some (sample_request ''web.local.'' TypeA)) (sample_world chain_store None) = Some (Return w') \<and>
     w_sent w' = [(sample_client, m)] \<and> MsgId m = 42"
proof -
  obtain w' where w': "HandleDNSRequest (sample_env Map.empty) sample_handler sample_client
       (Some (sample_request ''web.local.'' TypeA)) (sample_world chain_store None) = Some (Return w')"
    using sample_local_returns by blast
  from HandleDNSRequest_one_reply [OF _ _ this] w' show ?thesis
    by (auto simp: sample_lib_contract sample_exchanger_ok)
qed

lemma serves_sent:
  assumes "dns_contract (dlib E)" "serves E h remote req w w'"
  shows "\<exists>m. w_sent w' = w_sent w @ [(remote, m)] \<and> (Network remote \<noteq> ''tcp'' \<longrightarrow> fits (dlib E) m)"
  using assms(2)
proof cases
  case malformed
  have "Answer (format_error E req) = []"
    by (cases req) (simp_all add: format_error_def contract_simps [OF assms(1)])
  with malformed show ?thesis by (simp add: fits_def)
qed (use written_fits [of remote E] in auto)

text \<open>
  Every reply written over UDP is at most 512 bytes long or has no answers.
\<close>

theorem HandleDNSRequest_udp_size:
  assumes "dns_contract (dlib E)" and "Network remote \<noteq> ''tcp''"
    and "HandleDNSRequest E h remote req w = Some (Return w')"
  shows "\<exists>m. w_sent w' = w_sent w @ [(remote, m)] \<and> (Answer m = [] \<or> MsgLen (dlib E) m \<le> MaxMsgSize)"
  using serves_sent [OF assms(1) serves_complete [OF assms(3)]] assms(2) by (auto simp: fits_def)

theorem HandleDNSRequest_udp_size_witness:
  "\<exists>w' m. HandleDNSRequest (sample_env Map.empty) sample_handler sample_client
       (Some (sample_request ''web.local.'' TypeA)) (sample_world chain_store None) = Some (Return w') \<and>
     w_sent w' = [(sample_client, m)] \<and> (Answer m = [] \<or> MsgLen sample_lib m \<le> MaxMsgSize)"
proof -
  obtain w' where w': "HandleDNSRequest (sample_env Map.empty) sample_handler sample_client
       (Some (sample_request ''web.local.'' TypeA)) (sample_world chain_store None) = Some (Return w')"
    using sample_local_returns by blast
  from HandleDNSRequest_udp_size [OF _ _ this] w' show ?thesis
    by (simp add: sample_lib_contract sample_client_def)
qed

section \<open>The order of the sources of an answer\<close>

lemma handleA_reply:
  assumes "dns_contract (dlib E)"
  shows "MsgId (handleA E (request_state remote q) r rec) = MsgId r" "Rcode (handleA E (request_state remote q) r rec) = 0"
    "Authoritative (handleA E (request_state remote q) r rec) = (Qtype q = TypeA)"
    "Answer (handleA E (request_state remote q) r rec) = (if Qtype q = TypeA then [mk_A (qName q) (Content rec)] else [])"
  by (simp_all add: handleA_def Let_def contract_simps [OF assms])

lemma HandleDNSRequest_address:
  assumes "Questions r = q # qs" and "records_Get (w_records w) (qName q) = Some rec" and "Typ rec = records_A"
  shows "HandleDNSRequest E h remote (Some r) w =
    Some (Return (store_and_send E remote (request_key remote q) (handleA E (request_state remote q) r rec) w))"
proof -
  have "handleLocalRecord E h (w_records w) (request_state remote q) r (w_net w) =
      Some (Return (Some (handleA E (request_state remote q) r rec), w_net w))"
    using assms(2,3) by (simp add: handleLocalRecord_def records_A_def records_CNAME_def)
  from serves_sound [OF serves.local_reply [OF assms(1) this]] show ?thesis by simp
qed

lemma HandleDNSRequest_blocked:
  assumes "dns_contract (dlib E)" and "Questions r = q # qs"
    and "records_Get (w_records w) (qName q) = None" and "ShouldBlock (w_filter w) (qName q)"
  shows "HandleDNSRequest E h remote (Some r) w =
    Some (Return (send remote ((SetRcode (dlib E) new_Msg r RcodeNameError)\<lparr>RecursionAvailable := True\<rparr>)
      (w\<lparr>w_filter := LogBlocked (dlib E) (Now E (w_net w)) (w_filter w) (AddrString remote) (qName q) (Qtype q)\<rparr>)))"
proof -
  let ?m = "(SetRcode (dlib E) new_Msg r RcodeNameError)\<lparr>RecursionAvailable := True\<rparr>"
  have "Answer ?m = []" by (simp add: contract_simps [OF assms(1)])
  then have "written E remote ?m = ?m" by (simp add: written_def fit_response_def)
  moreover have "no_local (w_records w) (qName q)" using assms(3) by (simp add: no_local_def)
  ultimately show ?thesis
    using serves_sound [OF serves.blocked [OF assms(2) _ assms(4) refl], of E h remote] by simp
qed

text \<open>
  C15: A local address record answers first: whatever the filter and the cache hold, an address
  query gets exactly the configured address, marked authoritative, and a query of any other type
  gets an empty successful reply. No upstream server is asked and nothing is logged as blocked.
\<close>

theorem local_address_first:
  assumes "dns_contract (dlib E)" and "Questions r = q # qs"
    and "records_Get (w_records w) (qName q) = Some \<lparr>Typ = records_A, Content = c\<rparr>"
  shows "\<exists>w' m. HandleDNSRequest E h remote (Some r) w = Some (Return w') \<and>
    w_sent w' = w_sent w @ [(remote, written E remote m)] \<and> MsgId m = MsgId r \<and> Rcode m = 0 \<and>
    Answer m = (if Qtype q = TypeA then [mk_A (qName q) c] else []) \<and>
    Authoritative m = (Qtype q = TypeA) \<and> w_net w' = w_net w \<and> w_filter w' = w_filter w"
  by (intro exI [of _ "store_and_send E remote (request_key remote q)
        (handleA E (request_state remote q) r \<lparr>Typ = records_A, Content = c\<rparr>) w"]
      exI [of _ "handleA E (request_state remote q) r \<lparr>Typ = records_A, Content = c\<rparr>"])
    (simp add: HandleDNSRequest_address [OF assms(2,3)] handleA_reply [OF assms(1)])

theorem local_address_first_witness:
  "\<exists>w' m. HandleDNSRequest (sample_env Map.empty) sample_handler sample_client
       (Some (sample_request ''web.local.'' TypeAAAA)) (sample_world chain_store None) = Some (Return w') \<and>
     w_sent w' = [(sample_client, written (sample_env Map.empty) sample_client m)] \<and> Answer m = [] \<and> Rcode m = 0"
  using local_address_first [of "sample_env Map.empty" "sample_request ''web.local.'' TypeAAAA" _ _
      "sample_world chain_store None" "''10.0.0.1''" sample_handler sample_client]
  by (auto simp: sample_lib_contract chain_store_Get TypeA_def TypeAAAA_def)

text \<open>The line of the log of blocked queries, written out.\<close>

lemma LogBlocked_line:
  assumes "enabled f"
  shows "LogBlocked L now (Some f) addr name qtype =
    (case blocked_logger f of
       Some bl \<Rightarrow> (case bl_file bl of
           Some content \<Rightarrow> Some (f\<lparr>blocked_logger := Some (bl\<lparr>bl_file := Some (content @ FormatRFC3339 now @ '' client='' @ addr @
             '' type='' @ (case TypeToString L qtype of Some (c # s) \<Rightarrow> c # s | _ \<Rightarrow> Itoa (unat qtype)) @
             '' name='' @ name @ [CHR 0x0A])\<rparr>)\<rparr>)
         | None \<Rightarrow> Some f)
     | None \<Rightarrow> Some f)"
  using assms by (auto simp: LogBlocked_def blockedLogger_Log_def blocked_line_def Let_def split: option.splits list.splits)

text \<open>
  C13: A blocked name without a local record gets a name error, even when a reply for it is in the
  cache. No upstream server is asked and the cache is left alone. The file of blocked queries, when the
  filter has one, grows by exactly one line with the time, the client, the type and the name; nothing
  else of the filter changes, and without such a file nothing does.
\<close>

theorem blocked_name_error:
  assumes "dns_contract (dlib E)" and "Questions r = q # qs"
    and "records_Get (w_records w) (qName q) = None" and "ShouldBlock (w_filter w) (qName q)"
    and "w_filter w = Some f"
  shows "\<exists>w' m. HandleDNSRequest E h remote (Some r) w = Some (Return w') \<and>
    w_sent w' = w_sent w @ [(remote, m)] \<and> MsgId m = MsgId r \<and> Rcode m = RcodeNameError \<and> Answer m = [] \<and>
    w_net w' = w_net w \<and> w_cache w' = w_cache w \<and> w_heap w' = w_heap w \<and>
    (blocked_logger f = None \<longrightarrow> w_filter w' = Some f) \<and>
    (\<forall>content. blocked_logger f = Some \<lparr>bl_file = Some content\<rparr> \<longrightarrow>
       w_filter w' = Some (f\<lparr>blocked_logger := Some \<lparr>bl_file = Some (content @ FormatRFC3339 (Now E (w_net w)) @
         '' client='' @ AddrString remote @
         '' type='' @ (case TypeToString (dlib E) (Qtype q) of Some (c # s) \<Rightarrow> c # s | _ \<Rightarrow> Itoa (unat (Qtype q))) @
         '' name='' @ qName q @ [CHR 0x0A])\<rparr>\<rparr>))"
proof -
  have "enabled f" using assms(4,5) by (simp add: ShouldBlock_iff)
  then show ?thesis
    unfolding HandleDNSRequest_blocked [OF assms(1-4)] assms(5)
    by (auto simp: LogBlocked_line contract_simps [OF assms(1)])
qed

definition sample_filter :: Filter where
  "sample_filter = (NewFilter (\<lambda>p. Inr [])
     \<lparr>optEnabled = True, optBlockSubdomains = True, optAllowlistPath = [], optSources = [], optCacheDir = [],
      optUpdateInterval = 0, optBlockedLogPath = [], optErrorLimit = 0\<rparr>)
     \<lparr>blocklist := Some \<lparr>Exact = {''ads.example''}, Wildcards = {}\<rparr>\<rparr>"

lemma sample_filter_blocks:
  "ShouldBlock (Some sample_filter) ''Ads.example.''" "\<not> ShouldBlock (Some sample_filter) ''www.example.''"
proof -
  have "normalizeLookupName ''Ads.example.'' = ''ads.example''"
    "normalizeLookupName ''www.example.'' = ''www.example''" by code_simp+
  moreover have "\<not> below_any ''www.example'' {''ads.example''}"
    by (auto simp: below_any_def dest: arg_cong [of _ _ length])
  ultimately show "ShouldBlock (Some sample_filter) ''Ads.example.''" "\<not> ShouldBlock (Some sample_filter) ''www.example.''"
    by (simp_all add: ShouldBlock_def sample_filter_def NewFilter_def currentBlocklist_def currentAllowlist_def
        Matches_iff NewDomainSet_def)
qed

theorem blocked_name_error_witness:
  "\<exists>w' m. HandleDNSRequest (sample_env Map.empty) sample_handler sample_client
       (Some (sample_request ''Ads.example.'' TypeA))
       (sample_world Map.empty (Some (sample_filter\<lparr>blocked_logger := Some \<lparr>bl_file = Some []\<rparr>\<rparr>))) = Some (Return w') \<and>
     w_sent w' = [(sample_client, m)] \<and> Rcode m = RcodeNameError \<and> w_net w' = 0 \<and>
     w_filter w' = Some (sample_filter\<lparr>blocked_logger := Some \<lparr>bl_file =
       Some (''2023-11-14T22:13:20Z client=10.0.0.7:40000 type=A name=Ads.example.'' @ [CHR 0x0A])\<rparr>\<rparr>)"
proof -
  let ?f = "sample_filter\<lparr>blocked_logger := Some \<lparr>bl_file = Some []\<rparr>\<rparr>"
  have "ShouldBlock (Some ?f) ''Ads.example.'' = ShouldBlock (Some sample_filter) ''Ads.example.''"
    by (simp add: ShouldBlock_def currentBlocklist_def currentAllowlist_def)
  moreover have "FormatRFC3339 1700000000000000000 = ''2023-11-14T22:13:20Z''" "TypeToString sample_lib TypeA = Some ''A''"
    "AddrString sample_client = ''10.0.0.7:40000''" by code_simp+
  ultimately show ?thesis
    using blocked_name_error [of "sample_env Map.empty" "sample_request ''Ads.example.'' TypeA" _ _
        "sample_world Map.empty (Some ?f)" ?f sample_handler sample_client]
    by (auto simp: sample_lib_contract records_Get_empty sample_filter_blocks)
qed

text \<open>
  C16: When the name has no local record, is not blocked and not in the cache, and every upstream
  server fails, the client gets a server failure with the ID of its request; nothing is cached,
  so the next query tries the upstream servers again.
\<close>

theorem upstream_failure_servfail:
  assumes "dns_contract (dlib E)" and "Questions r = q # qs"
    and "records_Get (w_records w) (qName q) = None" and "\<not> ShouldBlock (w_filter w) (qName q)"
    and "w_cache w (request_key remote q) = None"
    and "Forward (Exchange E) (forwarder h) r (w_net w) = ((resp, Some err), n)"
  shows "\<exists>w' m. HandleDNSRequest E h remote (Some r) w = Some (Return w') \<and>
    w_sent w' = w_sent w @ [(remote, m)] \<and> MsgId m = MsgId r \<and> Rcode m = RcodeServerFailure \<and>
    RecursionAvailable m \<and> w_net w' = n \<and> w_cache w' = w_cache w \<and> w_heap w' = w_heap w"
proof -
  have "no_local (w_records w) (qName q)" using assms(3) by (simp add: no_local_def)
  moreover have "cache_Get (w_heap w) (w_cache w) (Now E (w_net w)) (request_key remote q) = Return None"
    using assms(5) by (simp add: cache_Get_def)
  ultimately have "HandleDNSRequest E h remote (Some r) w = Some (Return (send remote (written E remote
      ((SetRcode (dlib E) new_Msg r RcodeServerFailure)\<lparr>RecursionAvailable := True\<rparr>)) (w\<lparr>w_net := n\<rparr>)))"
    using serves_sound [OF serves.upstream_failed [OF assms(2) _ assms(4) _ assms(6) refl], of remote] by simp
  then show ?thesis by (auto simp: contract_simps [OF assms(1)])
qed

theorem upstream_failure_servfail_witness:
  "\<exists>w' m. HandleDNSRequest (sample_env Map.empty) sample_handler sample_client
       (Some (sample_request ''www.example.'' TypeA)) (sample_world Map.empty (Some sample_filter)) = Some (Return w') \<and>
     w_sent w' = [(sample_client, m)] \<and> Rcode m = RcodeServerFailure \<and> w_net w' = 2"
  using upstream_failure_servfail [of "sample_env Map.empty" "sample_request ''www.example.'' TypeA" _ _
      "sample_world Map.empty (Some sample_filter)" sample_client sample_handler None "''no reply from 1.1.1.1:53''" 2]
  by (auto simp: sample_lib_contract records_Get_empty sample_filter_blocks sample_handler_def sample_forward_eval)

section \<open>Termination\<close>

lemma handleLocalRecord_diverges:
  "handleLocalRecord E h recs rs r n = None \<longleftrightarrow>
    (\<exists>rec. records_Get recs (queryName rs) = Some rec \<and> Typ rec = records_CNAME \<and>
      cname_loop recs (Content rec @ ''.'')
        (Answer (SetReply (dlib E) new_Msg r) @ [mk_CNAME (queryName rs) (Content rec @ ''.'')]) = None)"
  by (auto simp: handleLocalRecord_def handleCNAME_def Let_def split: option.splits chain_end.splits prod.splits)

lemma HandleDNSRequest_diverges:
  "HandleDNSRequest E h remote (Some r) w = None \<longleftrightarrow>
    (\<exists>q qs. Questions r = q # qs \<and>
      handleLocalRecord E h (w_records w) (request_state remote q) r (w_net w) = None)"
proof (cases "Questions r")
  case (Cons q qs)
  show ?thesis
  proof (cases "no_local (w_records w) (qName q)")
    case True
    then have "handleLocalRecord E h (w_records w) (request_state remote q) r (w_net w) \<noteq> None"
      using handleLocalRecord_None [of E h "w_records w" "request_state remote q" r "w_net w" "w_net w"] by simp
    with True Cons show ?thesis
      by (auto simp: HandleDNSRequest_nonlocal split: option.splits outcome.splits prod.splits if_splits)
  next
    case False
    then have "handleLocalRecord E h (w_records w) (request_state remote q) r (w_net w) \<noteq> Some (Return (None, n))" for n
      by (simp add: handleLocalRecord_None)
    with Cons show ?thesis
      by (auto simp: HandleDNSRequest_local [OF Cons refl] split: option.splits outcome.splits)
  qed
qed (simp add: HandleDNSRequest_malformed)

text \<open>
  C10: With a well-formed store a request never returns exactly when its name has a local CNAME
  record whose chain comes back to an earlier target; every other request returns or panics.
\<close>

theorem HandleDNSRequest_returns_iff:
  assumes "store_ok (w_records w)" and "Questions r = q # qs"
  shows "HandleDNSRequest E h remote (Some r) w = None \<longleftrightarrow>
    (\<exists>rec i j u. records_Get (w_records w) (qName q) = Some rec \<and> Typ rec = records_CNAME \<and> i < j \<and>
      iterate (cname_next (w_records w)) i (Content rec @ ''.'') = Some u \<and>
      iterate (cname_next (w_records w)) j (Content rec @ ''.'') = Some u)"
proof -
  note diverges = cname.returns_iff_no_revisit
    [OF cname_targets_finite [OF assms(1)] cname_next_target [OF assms(1)], unfolded Not_eq_iff]
  show ?thesis
    unfolding HandleDNSRequest_diverges handleLocalRecord_diverges using assms(2) by (simp add: diverges)
qed


lemma loop_store_ok: "store_ok loop_store"
proof -
  have "normalizeName ''*.local.'' = ''*.local.''" "ToLower ''www.local'' = ''www.local''" by code_simp+
  then show ?thesis by (auto simp: store_ok_def loop_store_def record_ok_def records_CNAME_def records_A_def)
qed

theorem HandleDNSRequest_returns_iff_witness:
  "HandleDNSRequest (sample_env Map.empty) sample_handler sample_client
     (Some (sample_request ''Mail.local.'' TypeA)) (sample_world loop_store None) = None"
proof -
  have "iterate (cname_next loop_store) 0 ''www.local.'' = Some ''www.local.''"
    "iterate (cname_next loop_store) 1 ''www.local.'' = Some ''www.local.''" "(0::nat) < 1"
    by (simp_all add: cname_next_def loop_store_Get)
  then have "\<exists>rec i j u. records_Get loop_store ''Mail.local.'' = Some rec \<and> Typ rec = records_CNAME \<and> i < j \<and>
      iterate (cname_next loop_store) i (Content rec @ ''.'') = Some u \<and>
      iterate (cname_next loop_store) j (Content rec @ ''.'') = Some u"
    unfolding loop_store_Get
    by (intro exI [of _ "\<lparr>Typ = records_CNAME, Content = ''www.local''\<rparr>"]) (auto simp del: iterate.simps)
  then show ?thesis
    using HandleDNSRequest_returns_iff [of "sample_world loop_store None" "sample_request ''Mail.local.'' TypeA"]
    by (simp add: loop_store_ok)
qed

section \<open>Absence of panics\<close>

text \<open>
  The invariant of the cache: its entries point to messages, and every cached message has a
  question, which the log line of an expired entry reads.
\<close>

definition world_ok :: "'n world \<Rightarrow> bool" where
  "world_ok w \<longleftrightarrow> (\<forall>key e. w_cache w key = Some e \<longrightarrow>
     EntryMsg e < length (w_heap w) \<and> Questions (w_heap w ! EntryMsg e) \<noteq> [])"

text \<open>The part of it that holds whatever the upstream servers reply.\<close>

definition refs_ok :: "'n world \<Rightarrow> bool" where
  "refs_ok w \<longleftrightarrow> (\<forall>key e. w_cache w key = Some e \<longrightarrow> EntryMsg e < length (w_heap w))"

text \<open>An entry whose lookup panics: it has expired and its message has no question for the log line.\<close>

definition poisoned :: "'n env \<Rightarrow> 'n world \<Rightarrow> string \<Rightarrow> bool" where
  "poisoned E w key \<longleftrightarrow>
     (\<exists>e. w_cache w key = Some e \<and> Now E (w_net w) > ExpiresAt e \<and> Questions (w_heap w ! EntryMsg e) = [])"

text \<open>
  What is assumed of the upstream servers: configured, and a client that gives a message or an error. That
  replies repeat the question is a stronger assumption, which the client does not check.
\<close>

definition upstream_live :: "'n env \<Rightarrow> Handler \<Rightarrow> bool" where
  "upstream_live E h \<longleftrightarrow> never_nil (Exchange E) \<and> upstreamServers (forwarder h) \<noteq> []"

definition upstream_ok :: "'n env \<Rightarrow> Handler \<Rightarrow> bool" where
  "upstream_ok E h \<longleftrightarrow> upstream_live E h \<and> question_echoed (Exchange E)"

lemma world_ok_refs: "world_ok w \<Longrightarrow> refs_ok w"
  by (auto simp: world_ok_def refs_ok_def)

lemma world_ok_not_poisoned: "world_ok w \<Longrightarrow> \<not> poisoned E w key"
  by (auto simp: world_ok_def poisoned_def)

lemma cache_Get_Panic_iff:
  "cache_Get (w_heap w) (w_cache w) (Now E (w_net w)) key = Panic \<longleftrightarrow> poisoned E w key"
  by (auto simp: poisoned_def cache_Get_def split: option.splits list.splits)

lemma Forward_ok:
  assumes "upstream_live E h"
  shows "Forward (Exchange E) (forwarder h) r n \<noteq> ((None, None), n')"
proof (cases rule: Forward_never_nil [of "Exchange E" "forwarder h" r n])
qed (use assms in \<open>auto simp: upstream_live_def\<close>)

lemma handleLocalRecord_no_panic:
  "upstream_live E h \<Longrightarrow> handleLocalRecord E h recs rs r n \<noteq> Some Panic"
  using Forward_ok [of E h]
  by (auto simp: handleLocalRecord_def handleCNAME_def Let_def split: option.splits chain_end.splits prod.splits if_splits)

text \<open>The one way a request panics: it gets as far as the cache and meets a poisoned entry there.\<close>

definition panics_on :: "'n env \<Rightarrow> net_addr \<Rightarrow> Msg option \<Rightarrow> 'n world \<Rightarrow> bool" where
  "panics_on E remote req w \<longleftrightarrow>
     (\<exists>r q qs. req = Some r \<and> Questions r = q # qs \<and> no_local (w_records w) (qName q) \<and>
        \<not> ShouldBlock (w_filter w) (qName q) \<and> poisoned E w (request_key remote q))"

lemma HandleDNSRequest_panic_iff:
  assumes "upstream_live E h"
  shows "HandleDNSRequest E h remote req w = Some Panic \<longleftrightarrow> panics_on E remote req w"
proof (cases "req = None \<or> Questions (the req) = []")
  case True
  then have "\<not> panics_on E remote req w" by (auto simp: panics_on_def)
  with True show ?thesis by (simp add: HandleDNSRequest_malformed)
next
  case False
  then obtain r q qs where r: "req = Some r" "Questions r = q # qs"
    by (metis list.exhaust option.collapse)
  show ?thesis
  proof (cases "no_local (w_records w) (qName q)")
    case True
    with r assms show ?thesis
      using cache_Get_Panic_iff [of w E "request_key remote q"] Forward_ok [OF assms]
      by (auto simp: HandleDNSRequest_nonlocal panics_on_def split: option.splits outcome.splits prod.splits)
  next
    case False
    then have "handleLocalRecord E h (w_records w) (request_state remote q) r (w_net w) \<noteq> Some (Return (None, n))" for n
      by (simp add: handleLocalRecord_None)
    with r False handleLocalRecord_no_panic [OF assms] show ?thesis
      by (auto simp: HandleDNSRequest_local [OF r(2) refl] panics_on_def split: option.splits outcome.splits)
  qed
qed

lemma HandleDNSRequest_no_panic:
  assumes "upstream_ok E h" "world_ok w"
  shows "HandleDNSRequest E h remote req w \<noteq> Some Panic"
  using assms HandleDNSRequest_panic_iff world_ok_not_poisoned unfolding upstream_ok_def panics_on_def by blast

lemma serves_refs_ok: "refs_ok w \<Longrightarrow> serves E h remote req w w' \<Longrightarrow> refs_ok w'"
  by (erule serves.cases) (auto simp: refs_ok_def intro: less_SucI)

lemma store_and_send_world_ok:
  "world_ok w \<Longrightarrow> Questions msg \<noteq> [] \<Longrightarrow> world_ok (store_and_send E remote key msg (w\<lparr>w_net := n\<rparr>))"
  by (auto simp: world_ok_def nth_append intro: less_SucI)

lemma serves_world_ok:
  assumes "dns_contract (dlib E)" "upstream_ok E h" "world_ok w" "serves E h remote req w w'"
  shows "world_ok w'"
  using assms(4)
proof cases
  case (local_reply r q qs msg n)
  then show ?thesis
    using local_reply_header(2) [OF assms(1) local_reply(4)] store_and_send_world_ok [OF assms(3)] by simp
next
  case (forwarded r q qs msg n)
  have "replies_satisfy (\<lambda>r m. Questions r \<noteq> [] \<longrightarrow> Questions m \<noteq> []) (Exchange E)"
    using assms(2) by (simp add: upstream_ok_def question_echoed_def)
  from Forward_satisfies [OF this forwarded(7)] forwarded(3) have "Questions msg \<noteq> []" by simp
  with forwarded(2) show ?thesis by (simp add: store_and_send_world_ok [OF assms(3)])
qed (use assms(3) in \<open>auto simp: world_ok_def\<close>)

text \<open>
  With upstream servers that answer requests with messages that repeat the question, no request
  makes the program panic, whatever the request, the records and the lists are, and the invariant
  that guarantees it is kept.
\<close>

theorem HandleDNSRequest_safe:
  assumes "dns_contract (dlib E)" and "upstream_ok E h" and "world_ok w"
  shows "HandleDNSRequest E h remote req w \<noteq> Some Panic \<and>
    (\<forall>w'. HandleDNSRequest E h remote req w = Some (Return w') \<longrightarrow> world_ok w')"
  using HandleDNSRequest_no_panic [OF assms(2,3)] serves_world_ok [OF assms] serves_complete by blast

lemma sample_upstream_ok: "upstream_ok (sample_env answers) sample_handler"
  by (simp add: upstream_ok_def upstream_live_def sample_exchanger_ok sample_handler_def forward_New_def)

lemma sample_world_ok: "world_ok (sample_world recs flt)"
  by (simp add: world_ok_def)

theorem HandleDNSRequest_safe_witness:
  "HandleDNSRequest (sample_env [''1.1.1.1:53'' \<mapsto> new_Msg]) sample_handler sample_client
     (Some (sample_request ''www.example.'' TypeA)) (sample_world Map.empty None) \<noteq> Some Panic"
  using HandleDNSRequest_safe [OF _ sample_upstream_ok sample_world_ok] by (simp add: sample_lib_contract)

text \<open>
  C23: That replies repeat the question is needed for this: when a cached reply has no question, the first
  query for it after its expiry panics.
\<close>

theorem expired_without_question_panics:
  assumes "Questions r = q # qs" and "records_Get (w_records w) (qName q) = None"
    and "\<not> ShouldBlock (w_filter w) (qName q)"
    and "w_cache w (request_key remote q) = Some e" and "ExpiresAt e < Now E (w_net w)"
    and "Questions (w_heap w ! EntryMsg e) = []"
  shows "HandleDNSRequest E h remote (Some r) w = Some Panic"
proof -
  have "no_local (w_records w) (qName q)" using assms(2) by (simp add: no_local_def)
  then show ?thesis using assms by (simp add: HandleDNSRequest_nonlocal cache_Get_def)
qed


theorem expired_without_question_panics_witness:
  "HandleDNSRequest (sample_env Map.empty) sample_handler sample_client
     (Some (sample_request ''www.example.'' TypeA))
     (sample_world Map.empty None\<lparr>w_heap := [new_Msg],
        w_cache := [''www.example.|1|udp'' \<mapsto> \<lparr>EntryMsg = 0, ExpiresAt = 60000000000\<rparr>]\<rparr>) = Some Panic"
proof -
  have "request_key sample_client \<lparr>qName = ''www.example.'', Qtype = TypeA, Qclass = ClassINET\<rparr> = ''www.example.|1|udp''"
    by code_simp
  then show ?thesis
    by (intro expired_without_question_panics [where e = "\<lparr>EntryMsg = 0, ExpiresAt = 60000000000\<rparr>"])
      (auto simp: records_Get_empty)
qed

section \<open>The cache across requests\<close>

lemma append_sep_inj:
  assumes "xs @ c # ys = xs' @ c # ys'" "c \<notin> set ys" "c \<notin> set ys'"
  shows "xs = xs' \<and> ys = ys'"
proof -
  have eq: "rev ys @ c # rev xs = rev ys' @ c # rev xs'"
    using arg_cong [OF assms(1), of rev] by simp
  have tw: "takeWhile (\<lambda>x. x \<noteq> c) (rev zs @ c # us) = rev zs" if "c \<notin> set zs" for zs us
    using that by (induction zs rule: rev_induct) auto
  from arg_cong [OF eq, of "takeWhile (\<lambda>x. x \<noteq> c)"] have "rev ys = rev ys'"
    using tw assms(2,3) by simp
  with eq show ?thesis by simp
qed

lemma protocol_of_no_bar: "CHR ''|'' \<notin> set (protocol_of a)"
  by (simp add: protocol_of_def)

lemma cacheKeyFor_inj:
  assumes "cacheKeyFor n t p = cacheKeyFor n' t' p'" "CHR ''|'' \<notin> set p" "CHR ''|'' \<notin> set p'"
  shows "ToLower n = ToLower n' \<and> t = t' \<and> p = p'"
proof -
  have "(ToLower n @ CHR ''|'' # Itoa (unat t)) @ CHR ''|'' # p =
      (ToLower n' @ CHR ''|'' # Itoa (unat t')) @ CHR ''|'' # p'"
    using assms(1) by (simp add: cacheKeyFor_def)
  from append_sep_inj [OF this assms(2,3)]
  have "ToLower n @ CHR ''|'' # Itoa (unat t) = ToLower n' @ CHR ''|'' # Itoa (unat t')" and p: "p = p'" by simp_all
  moreover have "CHR ''|'' \<notin> set (Itoa k)" for k by (rule Itoa_no_char) simp_all
  ultimately have "ToLower n = ToLower n'" "Itoa (unat t) = Itoa (unat t')"
    using append_sep_inj by metis+
  with p show ?thesis using Itoa_inj by (metis word_unat_eq_iff)
qed

text \<open>
  Two requests share a cache entry exactly when they ask for the same name up to case, for the
  same type and over the same transport; in particular a truncated UDP reply is never found by a
  TCP request.
\<close>

theorem request_key_eq_iff:
  "request_key a q = request_key b q' \<longleftrightarrow>
     ToLower (qName q) = ToLower (qName q') \<and> Qtype q = Qtype q' \<and> protocol_of a = protocol_of b"
  using cacheKeyFor_inj [OF _ protocol_of_no_bar protocol_of_no_bar]
  unfolding request_key_def by (auto simp: cacheKeyFor_def)

text \<open>
  C22: A request changes at most the entry of its own key and never a message that was cached
  before: truncating a reply while it is written cannot damage another entry, although the
  cache stores pointers.
\<close>

theorem HandleDNSRequest_cache_frame:
  assumes "HandleDNSRequest E h remote req w = Some (Return w')"
  shows "(\<exists>ms. w_heap w' = w_heap w @ ms) \<and>
    (\<forall>k. (\<forall>r q qs. req = Some r \<and> Questions r = q # qs \<longrightarrow> k \<noteq> request_key remote q) \<longrightarrow>
      w_cache w' k = w_cache w k)"
  using serves_complete [OF assms] by cases auto

theorem HandleDNSRequest_cache_frame_witness:
  "\<exists>w'. HandleDNSRequest (sample_env Map.empty) sample_handler sample_client
       (Some (sample_request ''web.local.'' TypeA)) (sample_world chain_store None) = Some (Return w') \<and>
     w_cache w' ''web.local.|1|tcp'' = None"
proof -
  obtain w' where w': "HandleDNSRequest (sample_env Map.empty) sample_handler sample_client
       (Some (sample_request ''web.local.'' TypeA)) (sample_world chain_store None) = Some (Return w')"
    using sample_local_returns by blast
  have "request_key sample_client \<lparr>qName = ''web.local.'', Qtype = TypeA, Qclass = ClassINET\<rparr> = ''web.local.|1|udp''"
    by code_simp
  with HandleDNSRequest_cache_frame [OF w'] w' show ?thesis by (auto simp: sample_request_simps)
qed

lemma lower_same_name: "ToLower a = ToLower b \<Longrightarrow> normalizeName a = normalizeName b \<and> normalizeLookupName a = normalizeLookupName b"
  by (metis normalizeName_ToLower normalizeLookupName_ToLower)

text \<open>
  C9: Cache transparency: after a reply was forwarded, every later request for the same name in any
  spelling, the same type and the same transport, made before the TTL of the reply is over,
  is answered with the message the first client got, under its own ID, and without
  asking an upstream server.
\<close>

theorem repeated_query_from_cache:
  assumes "dns_contract (dlib E)"
    and "Questions r = q # qs" and "records_Get (w_records w) (qName q) = None"
    and "\<not> ShouldBlock (w_filter w) (qName q)"
    and "cache_Get (w_heap w) (w_cache w) (Now E (w_net w)) (request_key remote q) = Return None"
    and "Forward (Exchange E) (forwarder h) r (w_net w) = ((Some m, None), n)"
    and "Questions r' = q' # qs'" and "ToLower (qName q') = ToLower (qName q)" and "Qtype q' = Qtype q"
    and "protocol_of remote' = protocol_of remote"
    and "Now E n' \<le> Now E n + sint (msg_ttl m)"
  shows "\<exists>w1 w2. HandleDNSRequest E h remote (Some r) w = Some (Return w1) \<and>
    w_sent w1 = w_sent w @ [(remote, written E remote m)] \<and>
    HandleDNSRequest E h remote' (Some r') (w1\<lparr>w_net := n'\<rparr>) = Some (Return w2) \<and>
    w_sent w2 = w_sent w1 @ [(remote', written E remote'
      ((written E remote m)\<lparr>MsgId := MsgId r', RecursionAvailable := True\<rparr>))] \<and>
    w_net w2 = n'"
proof -
  let ?w1 = "store_and_send E remote (request_key remote q) m (w\<lparr>w_net := n\<rparr>)"
  have nl: "no_local (w_records w) (qName q)" using assms(3) by (simp add: no_local_def)
  from serves_sound [OF serves.forwarded [OF assms(2) nl assms(4-6)]]
  have first: "HandleDNSRequest E h remote (Some r) w = Some (Return ?w1)" .
  have key: "request_key remote' q' = request_key remote q"
    using assms(8-10) by (simp add: request_key_def cacheKeyFor_def)
  have "no_local (w_records w) (qName q')" "\<not> ShouldBlock (w_filter w) (qName q')"
    using nl assms(4) lower_same_name [OF assms(8)] records_Get_cong ShouldBlock_cong
    unfolding no_local_def by metis+
  moreover have "cache_Get (w_heap ?w1) (w_cache ?w1) (Now E n') (request_key remote' q') = Return (Some (length (w_heap w)))"
    using assms(11) key by (simp add: cache_Get_def)
  moreover have "MsgCopy (dlib E) (written E remote m) = written E remote m"
    by (rule dns_contractD(5) [OF assms(1)])
  ultimately have "HandleDNSRequest E h remote' (Some r') (?w1\<lparr>w_net := n'\<rparr>) =
      Some (Return (send remote' (written E remote' ((written E remote m)\<lparr>MsgId := MsgId r', RecursionAvailable := True\<rparr>))
        (?w1\<lparr>w_net := n'\<rparr>)))"
    using assms(7) by (simp add: HandleDNSRequest_nonlocal)
  with first show ?thesis by (intro exI conjI) (assumption | simp)+
qed

theorem repeated_query_from_cache_witness:
  "\<exists>w1 w2. HandleDNSRequest (sample_env [''1.1.1.1:53'' \<mapsto> new_Msg]) sample_handler sample_client
       (Some (sample_request ''www.example.'' TypeA)) (sample_world Map.empty None) = Some (Return w1) \<and>
     HandleDNSRequest (sample_env [''1.1.1.1:53'' \<mapsto> new_Msg]) sample_handler sample_client
       (Some (sample_request ''WWW.example.'' TypeA\<lparr>MsgId := 7\<rparr>)) (w1\<lparr>w_net := 1000\<rparr>) = Some (Return w2) \<and>
     w_net w2 = 1000"
proof -
  let ?E = "sample_env [''1.1.1.1:53'' \<mapsto> new_Msg]" and ?r = "sample_request ''www.example.'' TypeA"
  let ?m = "new_Msg\<lparr>MsgId := 42, Questions := Questions ?r\<rparr>"
  have "Forward (Exchange ?E) (forwarder sample_handler) ?r 0 = ((Some ?m, None), 2)"
    by (simp add: sample_handler_def sample_forward_eval)
  moreover have "ToLower ''WWW.example.'' = ToLower ''www.example.''" by code_simp
  moreover have "sint (msg_ttl ?m) = 60000000000" by (simp add: msg_ttl_def second_def)
  ultimately show ?thesis
    using repeated_query_from_cache [of ?E ?r "\<lparr>qName = ''www.example.'', Qtype = TypeA, Qclass = ClassINET\<rparr>" "[]"
        "sample_world Map.empty None" sample_client sample_handler ?m 2
        "sample_request ''WWW.example.'' TypeA\<lparr>MsgId := 7\<rparr>"
        "\<lparr>qName = ''WWW.example.'', Qtype = TypeA, Qclass = ClassINET\<rparr>" "[]" sample_client 1000]
    by (auto simp: sample_lib_contract records_Get_empty cache_Get_def)
qed

end
