(* ===== verification/ValueCache.thy ===== *)
theory ValueCache
  imports Requests
begin

text \<open>
  The handler without pointers: a reference version of the request handler whose cache holds
  message values, and the proof that the handler with its heap and its in-place truncation
  implements it, for single requests and for whole sequences.
\<close>

section \<open>The reference handler\<close>

record 'n vworld =
  v_records :: record_store
  v_cache :: "string \<rightharpoonup> Msg \<times> int"
  v_filter :: "Filter option"
  v_net :: 'n
  v_sent :: "(net_addr \<times> Msg) list"

definition vsend :: "net_addr \<Rightarrow> Msg \<Rightarrow> 'n vworld \<Rightarrow> 'n vworld" where
  "vsend remote msg v = v\<lparr>v_sent := v_sent v @ [(remote, msg)]\<rparr>"

text \<open>
  A reply that is kept: what is kept is the message as it was written, for the life time of the
  message as it was received.
\<close>

definition vstore :: "'n env \<Rightarrow> net_addr \<Rightarrow> string \<Rightarrow> Msg \<Rightarrow> 'n vworld \<Rightarrow> 'n vworld" where
  "vstore E remote key msg v =
     vsend remote (written E remote msg)
       (v\<lparr>v_cache := (v_cache v)(key \<mapsto> (written E remote msg, Now E (v_net v) + sint (msg_ttl msg)))\<rparr>)"

definition vlookup :: "'n env \<Rightarrow> 'n vworld \<Rightarrow> string \<Rightarrow> Msg option outcome" where
  "vlookup E v key =
     (case v_cache v key of
        None \<Rightarrow> Return None
      | Some (msg, expires) \<Rightarrow>
          if Now E (v_net v) > expires then (if Questions msg = [] then Panic else Return None)
          else Return (Some msg))"

definition vnonlocal :: "'n env \<Rightarrow> Handler \<Rightarrow> net_addr \<Rightarrow> Msg \<Rightarrow> Question \<Rightarrow> 'n vworld \<Rightarrow> 'n vworld outcome option" where
  "vnonlocal E h remote r q v =
     (if ShouldBlock (v_filter v) (qName q) then
        Some (Return (vsend remote (written E remote ((SetRcode (dlib E) new_Msg r RcodeNameError)\<lparr>RecursionAvailable := True\<rparr>))
          (v\<lparr>v_filter := LogBlocked (dlib E) (Now E (v_net v)) (v_filter v) (AddrString remote) (qName q) (Qtype q)\<rparr>)))
      else
        (case vlookup E v (request_key remote q) of
           Panic \<Rightarrow> Some Panic
         | Return (Some msg) \<Rightarrow>
             Some (Return (vsend remote (written E remote
               ((MsgCopy (dlib E) msg)\<lparr>MsgId := MsgId r, RecursionAvailable := True\<rparr>)) v))
         | Return None \<Rightarrow>
             (case Forward (Exchange E) (forwarder h) r (v_net v) of
                ((_, Some err), n) \<Rightarrow>
                  Some (Return (vsend remote (written E remote
                    ((SetRcode (dlib E) new_Msg r RcodeServerFailure)\<lparr>RecursionAvailable := True\<rparr>)) (v\<lparr>v_net := n\<rparr>)))
              | ((None, None), n) \<Rightarrow> Some Panic
              | ((Some msg, None), n) \<Rightarrow> Some (Return (vstore E remote (request_key remote q) msg (v\<lparr>v_net := n\<rparr>))))))"

definition vhandle :: "'n env \<Rightarrow> Handler \<Rightarrow> net_addr \<Rightarrow> Msg option \<Rightarrow> 'n vworld \<Rightarrow> 'n vworld outcome option" where
  "vhandle E h remote req v =
     (if req = None \<or> Questions (the req) = [] then Some (Return (vsend remote (format_error E req) v))
      else
        let r = the req; q = hd (Questions r) in
        (case handleLocalRecord E h (v_records v) (request_state remote q) r (v_net v) of
           None \<Rightarrow> None
         | Some Panic \<Rightarrow> Some Panic
         | Some (Return (Some msg, n)) \<Rightarrow>
             Some (Return (vstore E remote (request_key remote q) msg (v\<lparr>v_net := n\<rparr>)))
         | Some (Return (None, n)) \<Rightarrow> vnonlocal E h remote r q (v\<lparr>v_net := n\<rparr>)))"

section \<open>The abstraction\<close>

definition abs_cache :: "heap \<Rightarrow> DNSCache \<Rightarrow> string \<rightharpoonup> Msg \<times> int" where
  "abs_cache hp c key = map_option (\<lambda>e. (hp ! EntryMsg e, ExpiresAt e)) (c key)"

definition abs_world :: "'n world \<Rightarrow> 'n vworld" where
  "abs_world w = \<lparr>v_records = w_records w, v_cache = abs_cache (w_heap w) (w_cache w), v_filter = w_filter w,
     v_net = w_net w, v_sent = w_sent w\<rparr>"

lemma abs_world_simps [simp]:
  "v_records (abs_world w) = w_records w" "v_cache (abs_world w) = abs_cache (w_heap w) (w_cache w)"
  "v_filter (abs_world w) = w_filter w" "v_net (abs_world w) = w_net w" "v_sent (abs_world w) = w_sent w"
  by (simp_all add: abs_world_def)

text \<open>Each operation on the world with a heap is the corresponding one on the world without.\<close>

lemma abs_send [simp]: "abs_world (send remote msg w) = vsend remote msg (abs_world w)"
  by (simp add: abs_world_def send_def vsend_def)

lemma abs_net [simp]: "abs_world (w\<lparr>w_net := n\<rparr>) = (abs_world w)\<lparr>v_net := n\<rparr>"
  by (simp add: abs_world_def)

lemma abs_filter [simp]: "abs_world (w\<lparr>w_filter := f\<rparr>) = (abs_world w)\<lparr>v_filter := f\<rparr>"
  by (simp add: abs_world_def)

lemma abs_cache_append:
  "refs_ok w \<Longrightarrow> abs_cache (w_heap w @ ms) ((w_cache w)(key \<mapsto> e)) =
     (abs_cache (w_heap w) (w_cache w))(key \<mapsto> ((w_heap w @ ms) ! EntryMsg e, ExpiresAt e))"
proof (rule ext)
  fix x
  assume "refs_ok w"
  then show "abs_cache (w_heap w @ ms) ((w_cache w)(key \<mapsto> e)) x =
     ((abs_cache (w_heap w) (w_cache w))(key \<mapsto> ((w_heap w @ ms) ! EntryMsg e, ExpiresAt e))) x"
    by (cases "w_cache w x") (auto simp: abs_cache_def refs_ok_def nth_append)
qed

lemma abs_store:
  "refs_ok w \<Longrightarrow> abs_world (store_and_send E remote key msg w) = vstore E remote key msg (abs_world w)"
  by (simp add: store_and_send_def vstore_def cache_put_def abs_world_def send_def vsend_def abs_cache_append)

lemma abs_lookup:
  "vlookup E (abs_world w) key =
     map_outcome (map_option (\<lambda>ref. w_heap w ! ref)) (cache_Get (w_heap w) (w_cache w) (Now E (w_net w)) key)"
  by (auto simp: vlookup_def cache_Get_def abs_cache_def split: option.splits list.splits)

lemma refs_ok_net [simp]: "refs_ok (w\<lparr>w_net := n\<rparr>) = refs_ok w"
  by (simp add: refs_ok_def)

section \<open>Refinement\<close>

abbreviation abs_result :: "'n world outcome option \<Rightarrow> 'n vworld outcome option" where
  "abs_result \<equiv> map_option (map_outcome abs_world)"

lemma nonlocal_refines:
  assumes "refs_ok w" "Questions r = q # qs" "no_local (w_records w) (qName q)"
  shows "abs_result (HandleDNSRequest E h remote (Some r) w) = vnonlocal E h remote r q (abs_world w)"
proof -
  obtain resp e n where fw: "Forward (Exchange E) (forwarder h) r (w_net w) = ((resp, e), n)"
    by (metis prod.exhaust)
  have st: "abs_world (store_and_send E remote key msg (w\<lparr>w_net := n\<rparr>)) =
      vstore E remote key msg ((abs_world w)\<lparr>v_net := n\<rparr>)" for key msg
    using assms(1) by (simp add: abs_store)
  show ?thesis
    unfolding HandleDNSRequest_nonlocal [OF assms(2,3)] vnonlocal_def abs_lookup
    by (cases resp; cases e) (simp_all add: fw st split: outcome.splits option.splits)
qed

lemma local_refines:
  assumes "refs_ok w" "Questions r = q # qs"
    "\<And>n. handleLocalRecord E h (w_records w) (request_state remote q) r (w_net w) \<noteq> Some (Return (None, n))"
  shows "abs_result (HandleDNSRequest E h remote (Some r) w) = vhandle E h remote (Some r) (abs_world w)"
proof -
  have st: "abs_world (store_and_send E remote key msg (w\<lparr>w_net := n\<rparr>)) =
      vstore E remote key msg ((abs_world w)\<lparr>v_net := n\<rparr>)" for key msg n
    using assms(1) by (simp add: abs_store)
  show ?thesis
    unfolding HandleDNSRequest_local [OF assms(2) refl assms(3)]
    using assms(2,3) by (simp add: vhandle_def st split: option.splits outcome.splits prod.splits)
qed

lemma handler_refines:
  assumes "refs_ok w"
  shows "abs_result (HandleDNSRequest E h remote req w) = vhandle E h remote req (abs_world w)"
proof (cases "req = None \<or> Questions (the req) = []")
  case True
  then show ?thesis by (simp add: HandleDNSRequest_malformed vhandle_def)
next
  case False
  then obtain r q qs where r: "req = Some r" "Questions r = q # qs"
    by (metis list.exhaust option.collapse)
  show ?thesis
  proof (cases "no_local (w_records w) (qName q)")
    case True
    then have "handleLocalRecord E h (w_records w) (request_state remote q) r (w_net w) = Some (Return (None, w_net w))"
      by (simp add: handleLocalRecord_None)
    then have "vhandle E h remote req (abs_world w) = vnonlocal E h remote r q ((abs_world w)\<lparr>v_net := w_net w\<rparr>)"
      using r by (simp add: vhandle_def)
    also have "(abs_world w)\<lparr>v_net := w_net w\<rparr> = abs_world w" by (simp add: abs_world_def)
    finally show ?thesis using nonlocal_refines [OF assms r(2) True] r(1) by simp
  next
    case False
    then have "handleLocalRecord E h (w_records w) (request_state remote q) r (w_net w) \<noteq> Some (Return (None, n))" for n
      by (simp add: handleLocalRecord_None)
    then show ?thesis using local_refines [OF assms r(2)] r(1) by blast
  qed
qed

text \<open>
  The handler with its heap of shared, mutable messages implements the handler that stores
  message values: on every world whose cache points into the heap both have the same
  outcome, up to forgetting addresses, whether they reply, panic or never return.
\<close>

theorem HandleDNSRequest_refines:
  assumes "refs_ok w"
  shows "map_option (map_outcome abs_world) (HandleDNSRequest E h remote req w) = vhandle E h remote req (abs_world w)"
  using assms by (rule handler_refines)

theorem HandleDNSRequest_refines_witness:
  "map_option (map_outcome abs_world) (HandleDNSRequest (sample_env Map.empty) sample_handler sample_client
     (Some (sample_request ''web.local.'' TypeA)) (sample_world chain_store None)) =
   vhandle (sample_env Map.empty) sample_handler sample_client (Some (sample_request ''web.local.'' TypeA))
     (abs_world (sample_world chain_store None))"
  by (rule HandleDNSRequest_refines) (simp add: refs_ok_def)

section \<open>Sequences of requests\<close>

text \<open>Requests one after the other, each with the state of the outside world it meets.\<close>

fun serve_all :: "'n env \<Rightarrow> Handler \<Rightarrow> ('n \<times> net_addr \<times> Msg option) list \<Rightarrow> 'n world \<Rightarrow> 'n world outcome option" where
  "serve_all E h [] w = Some (Return w)"
| "serve_all E h ((n, remote, req) # rest) w =
     (case HandleDNSRequest E h remote req (w\<lparr>w_net := n\<rparr>) of
        None \<Rightarrow> None
      | Some Panic \<Rightarrow> Some Panic
      | Some (Return w') \<Rightarrow> serve_all E h rest w')"

fun vserve_all :: "'n env \<Rightarrow> Handler \<Rightarrow> ('n \<times> net_addr \<times> Msg option) list \<Rightarrow> 'n vworld \<Rightarrow> 'n vworld outcome option" where
  "vserve_all E h [] v = Some (Return v)"
| "vserve_all E h ((n, remote, req) # rest) v =
     (case vhandle E h remote req (v\<lparr>v_net := n\<rparr>) of
        None \<Rightarrow> None
      | Some Panic \<Rightarrow> Some Panic
      | Some (Return v') \<Rightarrow> vserve_all E h rest v')"

text \<open>
  C3: A client cannot tell the two apart: for every sequence of requests, in any state of the outside
  world at each of them, the handler with shared messages sends the same replies as the one
  that stores values.
\<close>

theorem serve_all_refines:
  assumes "refs_ok w"
  shows "map_option (map_outcome abs_world) (serve_all E h reqs w) = vserve_all E h reqs (abs_world w)"
  using assms
proof (induction E h reqs w rule: serve_all.induct)
  case (2 E h n remote req rest w)
  have ok: "refs_ok (w\<lparr>w_net := n\<rparr>)" using 2 by simp
  note ref = handler_refines [OF ok, of E h remote req, symmetric]
  show ?case
  proof (cases "HandleDNSRequest E h remote req (w\<lparr>w_net := n\<rparr>)")
    case None
    with ref show ?thesis by simp
  next
    case (Some res)
    show ?thesis
    proof (cases res)
      case Panic
      with Some ref show ?thesis by simp
    next
      case (Return w')
      with Some have "refs_ok w'" using serves_refs_ok [OF _ serves_complete] ok by blast
      with 2(1) [OF Some Return] Some Return ref show ?thesis by simp
    qed
  qed
qed simp

theorem serve_all_refines_witness:
  "map_option (map_outcome abs_world) (serve_all (sample_env Map.empty) sample_handler
     [(0, sample_client, Some (sample_request ''web.local.'' TypeA)), (5, sample_client, None)] (sample_world chain_store None)) =
   vserve_all (sample_env Map.empty) sample_handler
     [(0, sample_client, Some (sample_request ''web.local.'' TypeA)), (5, sample_client, None)]
     (abs_world (sample_world chain_store None))"
  by (rule serve_all_refines) (simp add: refs_ok_def)

end
