(* ===== verification/Interleaving.thy ===== *)
theory Interleaving
  imports Requests
begin

text \<open>
  The requests of \<^verbatim>\<open>pkg/handler/handler.go\<close> run in goroutines of their own. A reply is put into the cache
  before \<^verbatim>\<open>writeResponse\<close> truncates the same object in place, so another request can find the
  message in between. This theory splits the end of a request into these two steps and shows that what is
  served in between does not depend on it.
\<close>

section \<open>The two steps\<close>

definition publish :: "'n env \<Rightarrow> string \<Rightarrow> Msg \<Rightarrow> 'n world \<Rightarrow> 'n world" where
  "publish E key msg w =
     w\<lparr>w_heap := w_heap w @ [msg],
       w_cache := cache_put (w_heap w @ [msg]) (w_cache w) (Now E (w_net w)) key (length (w_heap w))\<rparr>"

text \<open>\<^verbatim>\<open>writeResponse\<close> on the object at an address: it is truncated in place, then written.\<close>

definition settle :: "'n env \<Rightarrow> net_addr \<Rightarrow> ref \<Rightarrow> 'n world \<Rightarrow> 'n world" where
  "settle E remote a w = w\<lparr>w_heap := (w_heap w)[a := written E remote (w_heap w ! a)]\<rparr>"

definition finish :: "'n env \<Rightarrow> net_addr \<Rightarrow> ref \<Rightarrow> 'n world \<Rightarrow> 'n world" where
  "finish E remote a w = send remote (w_heap (settle E remote a w) ! a) (settle E remote a w)"

text \<open>One after the other they are the end of a request.\<close>

lemma cache_and_reply_steps:
  "cache_and_reply E (request_state remote q) key msg w =
     Return (finish E remote (length (w_heap w)) (publish E key msg w))"
  by (simp add: cache_and_reply_send store_and_send_def finish_def settle_def publish_def send_def)

section \<open>Truncation and the header\<close>

text \<open>The ID and the flags of a message are in its header, whose size is fixed.\<close>

definition header_fixed :: "dnslib \<Rightarrow> bool" where
  "header_fixed L \<longleftrightarrow> (\<forall>m i. MsgLen L (m\<lparr>MsgId := i, RecursionAvailable := True\<rparr>) = MsgLen L m)"

definition stamp :: "u16 \<Rightarrow> Msg \<Rightarrow> Msg" where
  "stamp i m = m\<lparr>MsgId := i, RecursionAvailable := True\<rparr>"

lemma stamp_simps [simp]:
  "Answer (stamp i m) = Answer m" "(stamp i m)\<lparr>Answer := x\<rparr> = stamp i (m\<lparr>Answer := x\<rparr>)"
  "(stamp i m)\<lparr>Truncated := t\<rparr> = stamp i (m\<lparr>Truncated := t\<rparr>)"
  by (simp_all add: stamp_def)

lemma stamp_size: "header_fixed L \<Longrightarrow> MsgLen L (stamp i m) = MsgLen L m"
  by (simp add: header_fixed_def stamp_def)

lemma truncate_loop_stamp:
  "header_fixed L \<Longrightarrow> truncate_loop L (stamp i m) s = stamp i (truncate_loop L m s)"
proof (induction L m s rule: truncate_loop.induct)
  case (1 L m s)
  show ?case
  proof (cases "s > MaxMsgSize \<and> 0 < length (Answer m)")
    case True
    then show ?thesis
      using 1(1) [OF True refl 1(2)] truncate_loop.simps [of L "stamp i m" s] truncate_loop.simps [of L m s]
      by (simp add: Let_def stamp_size [OF 1(2)])
  qed (simp add: truncate_loop_stop)
qed

lemma fit_response_stamp:
  "header_fixed L \<Longrightarrow> fit_response L t (stamp i m) = stamp i (fit_response L t m)"
  by (simp add: fit_response_def Let_def stamp_size truncate_loop_stamp)

lemma fit_response_idem: "fit_response L t (fit_response L t m) = fit_response L t m"
proof (cases rule: fit_response_cases [of L t m])
  case (cut k)
  then show ?thesis by (cases rule: fit_response_cases [of L t "fit_response L t m"]) auto
qed simp

lemma written_idem:
  assumes "header_fixed (dlib E)" "Network remote' = ''tcp'' \<longleftrightarrow> Network remote = ''tcp''"
  shows "written E remote' (stamp i (written E remote m)) = written E remote' (stamp i m)"
  using assms by (simp add: written_def fit_response_stamp fit_response_idem)

lemma Questions_written [simp]: "Questions (written E remote m) = Questions m"
  unfolding written_def by (cases rule: fit_response_cases [of "dlib E" "Network remote = ''tcp''" m]) (auto simp: keep_def)

section \<open>Serving in between\<close>

text \<open>The object at an address is cached only for clients of the transport it is written to.\<close>

definition same_transport :: "net_addr \<Rightarrow> ref \<Rightarrow> 'n world \<Rightarrow> bool" where
  "same_transport remote a w \<longleftrightarrow>
     (\<forall>remote' q e. w_cache w (request_key remote' q) = Some e \<and> EntryMsg e = a \<longrightarrow>
        (Network remote' = ''tcp'' \<longleftrightarrow> Network remote = ''tcp''))"

lemma settle_simps [simp]:
  "w_records (settle E remote a w) = w_records w" "w_cache (settle E remote a w) = w_cache w"
  "w_filter (settle E remote a w) = w_filter w" "w_net (settle E remote a w) = w_net w"
  "w_sent (settle E remote a w) = w_sent w"
  "settle E remote a (w\<lparr>w_net := n\<rparr>) = (settle E remote a w)\<lparr>w_net := n\<rparr>"
  "settle E remote a (w\<lparr>w_filter := f\<rparr>) = (settle E remote a w)\<lparr>w_filter := f\<rparr>"
  "settle E remote a (send c m w) = send c m (settle E remote a w)"
  by (simp_all add: settle_def send_def)

lemma settle_store:
  assumes "a < length (w_heap w)"
  shows "settle E remote a (store_and_send E c key m w) = store_and_send E c key m (settle E remote a w)"
  using assms by (simp add: store_and_send_def settle_def send_def cache_put_def nth_append list_update_append)

lemma cache_Get_settle:
  "cache_Get (w_heap (settle E remote a w)) c now key = cache_Get (w_heap w) c now key"
proof -
  have "Questions (w_heap (settle E remote a w) ! i) = Questions (w_heap w ! i)" for i
    by (cases "i = a"; cases "a < length (w_heap w)") (simp_all add: settle_def list_update_beyond)
  then show ?thesis by (simp add: cache_Get_def split: option.split)
qed

lemma hit_settle:
  assumes "header_fixed (dlib E)" "same_transport remote a w"
    "cache_Get (w_heap w) (w_cache w) now (request_key remote' q) = Return (Some ref)"
  shows "written E remote' (stamp i (w_heap (settle E remote a w) ! ref)) = written E remote' (stamp i (w_heap w ! ref))"
proof (cases "ref = a \<and> a < length (w_heap w)")
  case True
  from assms(3) obtain e where "w_cache w (request_key remote' q) = Some e" "EntryMsg e = ref"
    by (auto simp: cache_Get_def split: option.splits if_splits list.splits)
  with assms(2) True have "Network remote' = ''tcp'' \<longleftrightarrow> Network remote = ''tcp''" by (auto simp: same_transport_def)
  with True show ?thesis by (simp add: settle_def written_idem [OF assms(1)])
qed (auto simp: settle_def list_update_beyond)

lemma settle_serve_nonlocal:
  assumes "dns_contract (dlib E)" "header_fixed (dlib E)" "same_transport remote a w" "a < length (w_heap w)"
    and "Questions r = q # qs" "no_local (w_records w) (qName q)"
  shows "HandleDNSRequest E h remote' (Some r) (settle E remote a w) =
    map_option (map_outcome (settle E remote a)) (HandleDNSRequest E h remote' (Some r) w)"
proof -
  note hit = hit_settle [OF assms(2,3), unfolded stamp_def]
  have nl: "no_local (w_records (settle E remote a w)) (qName q)" using assms(6) by simp
  show ?thesis
    unfolding HandleDNSRequest_nonlocal [OF assms(5,6)] HandleDNSRequest_nonlocal [OF assms(5) nl]
    using assms(4)
    by (auto simp: cache_Get_settle settle_store dns_contractD(5) [OF assms(1)] hit
        split: option.splits outcome.splits prod.splits)
qed

lemma settle_serve:
  assumes "dns_contract (dlib E)" "header_fixed (dlib E)" "same_transport remote a w" "a < length (w_heap w)"
  shows "HandleDNSRequest E h remote' req (settle E remote a w) =
    map_option (map_outcome (settle E remote a)) (HandleDNSRequest E h remote' req w)"
proof (cases "req = None \<or> Questions (the req) = []")
  case True
  then show ?thesis by (simp add: HandleDNSRequest_def settle_simps(8) [unfolded send_def])
next
  case False
  then obtain r q qs where req: "req = Some r" and q: "Questions r = q # qs"
    by (cases req; cases "Questions (the req)") auto
  show ?thesis
  proof (cases "no_local (w_records w) (qName q)")
    case True
    from settle_serve_nonlocal [OF assms q True] show ?thesis unfolding req .
  next
    case False
    let ?res = "handleLocalRecord E h (w_records w) (request_state remote' q) r (w_net w)"
    have nn: "?res \<noteq> Some (Return (None, n))" for n using False by (simp add: handleLocalRecord_None)
    show ?thesis
      unfolding req HandleDNSRequest_local [OF q refl nn]
        HandleDNSRequest_local [of r q qs E h "settle E remote a w" remote', OF q refl, unfolded settle_simps, OF nn]
      using assms(4) by (auto simp: settle_store split: option.splits outcome.splits prod.splits)
  qed
qed

text \<open>What was sent before plays no part in how a request is served.\<close>

lemma serves_sent_frame:
  assumes "serves E h remote req w w'"
  shows "\<exists>m. w_sent w' = w_sent w @ [(remote, m)] \<and>
    serves E h remote req (w\<lparr>w_sent := s\<rparr>) (w'\<lparr>w_sent := s @ [(remote, m)]\<rparr>)"
  using assms
proof cases
  case malformed
  then show ?thesis using serves.malformed [of req E h remote "w\<lparr>w_sent := s\<rparr>"] by (simp add: send_def)
next
  case (local_reply r q qs msg n)
  then show ?thesis using serves.local_reply [of r q qs E h "w\<lparr>w_sent := s\<rparr>" remote msg n]
    by (simp add: send_def store_and_send_def)
next
  case (blocked r q qs msg)
  then show ?thesis using serves.blocked [of r q qs "w\<lparr>w_sent := s\<rparr>" msg E h remote] by (simp add: send_def)
next
  case (cache_hit r q qs ref msg)
  then show ?thesis using serves.cache_hit [of r q qs "w\<lparr>w_sent := s\<rparr>" E remote ref msg h] by (simp add: send_def)
next
  case (upstream_failed r q qs resp err n msg)
  then show ?thesis
    using serves.upstream_failed [of r q qs "w\<lparr>w_sent := s\<rparr>" E remote h resp err n msg] by (simp add: send_def)
next
  case (forwarded r q qs msg n)
  then show ?thesis using serves.forwarded [of r q qs "w\<lparr>w_sent := s\<rparr>" E remote h msg n]
    by (simp add: send_def store_and_send_def)
qed

lemma publish_same_transport:
  assumes "\<And>k e. w_cache w k = Some e \<Longrightarrow> EntryMsg e < length (w_heap w)"
  shows "same_transport remote (length (w_heap w)) (publish E (request_key remote q) m w)"
proof -
  have "Network a = ''tcp'' \<longleftrightarrow> Network b = ''tcp''" if "request_key a q = request_key b q'" for a b q q'
    using cacheKeyFor_inj [OF that [unfolded request_key_def] protocol_of_no_bar protocol_of_no_bar]
    by (auto simp: protocol_of_def split: if_splits)
  then show ?thesis
    using assms by (fastforce simp: same_transport_def publish_def cache_put_def split: if_splits)
qed

text \<open>
  A request that is served between the two steps gets the reply it would have got afterwards, and
  leaves the same world: a reply that is already cached but not yet truncated is truncated by
  whoever reads it, in the same way. Only the order of the two replies differs. The hypothesis on the
  library is that the ID and the flags do not change the size of a message.
\<close>

theorem published_reply_interleaves:
  assumes "dns_contract (dlib E)" and "header_fixed (dlib E)"
    and "\<forall>k e. w_cache w k = Some e \<longrightarrow> EntryMsg e < length (w_heap w)"
    and "w1 = publish E (request_key remote q) m w" and "a = length (w_heap w)"
    and "HandleDNSRequest E h remote' req w1 = Some (Return w2)"
  shows "\<exists>b w2'. HandleDNSRequest E h remote' req (finish E remote a w1) = Some (Return w2') \<and>
    w_sent (finish E remote a w2) = w_sent w @ [(remote', b), (remote, written E remote m)] \<and>
    w_sent w2' = w_sent w @ [(remote, written E remote m), (remote', b)] \<and>
    (finish E remote a w2)\<lparr>w_sent := []\<rparr> = w2'\<lparr>w_sent := []\<rparr>"
proof -
  let ?s = "w_sent w @ [(remote, written E remote m)]"
  have a: "a < length (w_heap w1)" "w_heap w1 ! a = m" and sent: "w_sent w1 = w_sent w"
    by (simp_all add: assms(4,5) publish_def)
  have "same_transport remote a w1" unfolding assms(4,5) using assms(3) by (intro publish_same_transport) blast
  from settle_serve [OF assms(1,2) this a(1), of h remote' req]
  have "HandleDNSRequest E h remote' req (settle E remote a w1) = Some (Return (settle E remote a w2))"
    by (simp add: assms(6))
  from serves_sent_frame [OF serves_complete [OF this], of ?s] obtain b where
    b: "w_sent w2 = w_sent w @ [(remote', b)]"
    and sv: "serves E h remote' req ((settle E remote a w1)\<lparr>w_sent := ?s\<rparr>)
      ((settle E remote a w2)\<lparr>w_sent := ?s @ [(remote', b)]\<rparr>)"
    using sent by auto
  have "(settle E remote a w1)\<lparr>w_sent := ?s\<rparr> = finish E remote a w1"
    using a sent by (simp add: finish_def settle_def send_def)
  with serves_sound [OF sv] have "HandleDNSRequest E h remote' req (finish E remote a w1) =
      Some (Return ((settle E remote a w2)\<lparr>w_sent := ?s @ [(remote', b)]\<rparr>))" by simp
  moreover have "\<exists>ms. w_heap w2 = w_heap w1 @ ms" using serves_complete [OF assms(6)] by cases auto
  then have "a < length (w_heap w2)" "w_heap w2 ! a = m" using a by (auto simp: nth_append)
  then have "w_sent (finish E remote a w2) = w_sent w @ [(remote', b), (remote, written E remote m)]"
    using b by (simp add: finish_def settle_def send_def)
  moreover have "(finish E remote a w2)\<lparr>w_sent := []\<rparr> =
      ((settle E remote a w2)\<lparr>w_sent := ?s @ [(remote', b)]\<rparr>)\<lparr>w_sent := []\<rparr>"
    by (simp add: finish_def send_def)
  ultimately show ?thesis by force
qed

lemma sample_header_fixed: "header_fixed sample_lib"
  by (simp add: header_fixed_def sample_lib_def)

text \<open>A second client asks in another spelling for the name whose reply was just cached.\<close>

theorem published_reply_interleaves_witness:
  "\<exists>w2 w2'. HandleDNSRequest (sample_env Map.empty) sample_handler sample_client
       (Some (sample_request ''WWW.example.'' TypeA))
       (publish (sample_env Map.empty) ''www.example.|1|udp'' (sample_request ''www.example.'' TypeA)
         (sample_world Map.empty None)) = Some (Return w2) \<and>
     HandleDNSRequest (sample_env Map.empty) sample_handler sample_client
       (Some (sample_request ''WWW.example.'' TypeA))
       (finish (sample_env Map.empty) sample_client 0
         (publish (sample_env Map.empty) ''www.example.|1|udp'' (sample_request ''www.example.'' TypeA)
           (sample_world Map.empty None))) = Some (Return w2') \<and>
     length (w_sent w2') = 2"
proof -
  let ?E = "sample_env Map.empty" and ?m = "sample_request ''www.example.'' TypeA" and ?r = "sample_request ''WWW.example.'' TypeA"
  let ?q = "\<lparr>qName = ''www.example.'', Qtype = TypeA, Qclass = ClassINET\<rparr>"
    and ?q' = "\<lparr>qName = ''WWW.example.'', Qtype = TypeA, Qclass = ClassINET\<rparr>"
  let ?w = "sample_world Map.empty None"
  have k: "request_key sample_client ?q = ''www.example.|1|udp''" "request_key sample_client ?q' = ''www.example.|1|udp''"
    by code_simp+
  let ?w1 = "publish ?E ''www.example.|1|udp'' ?m ?w"
  have "cache_Get (w_heap ?w1) (w_cache ?w1) (Now ?E (w_net ?w1)) (request_key sample_client ?q') = Return (Some 0)"
    by (simp add: publish_def cache_put_def cache_Get_def k msg_ttl_def second_def sample_request_def)
  moreover have "no_local (w_records ?w1) ''WWW.example.''" by (simp add: publish_def no_local_def records_Get_empty)
  moreover have "w_filter ?w1 = None" by (simp add: publish_def)
  ultimately obtain w2 where w2: "HandleDNSRequest ?E sample_handler sample_client (Some ?r) ?w1 = Some (Return w2)"
    using HandleDNSRequest_nonlocal [of ?r ?q' "[]" ?w1 ?E sample_handler sample_client]
    by (simp add: ShouldBlock_def)
  from published_reply_interleaves [of ?E ?w ?w1 sample_client ?q ?m 0, OF _ _ _ _ _ w2] w2 show ?thesis
    by (auto simp: sample_lib_contract sample_header_fixed k)
qed

end
