(* ===== verification/Goroutines.thy ===== *)
theory Goroutines
  imports Interleaving
begin

text \<open>
  The handler of \<^verbatim>\<open>pkg/handler/handler.go\<close> as a goroutine: one step per access to what requests share, which
  are the record store, the two lists of the filter, the log of blocked queries, the cache, the
  messages the cache points to and the network. A goroutine that runs alone does what the handler of
  theory \<open>Handler\<close> does in one piece.
\<close>

section \<open>The steps of a request\<close>

text \<open>Why the upstream servers are asked: for the end of a CNAME chain, or for the query itself.\<close>

datatype purpose = ForTarget "RR list" | ForQuery

datatype phase =
    Begin
  | Chase "RR list" string
  | Ask purpose Msg "string list" "goerror option"
  | AllowCheck
  | BlockCheck
  | LogHit
  | CacheLookup
  | CopyHit ref
  | Publish Msg
  | Writing ref
  | Cutting ref nat
  | Fresh Msg
  | Done Msg

definition start_reply :: "'n env \<Rightarrow> Msg \<Rightarrow> Msg" where
  "start_reply E r = (SetReply (dlib E) new_Msg r)\<lparr>RecursionAvailable := True\<rparr>"

definition error_reply :: "'n env \<Rightarrow> Msg \<Rightarrow> int \<Rightarrow> Msg" where
  "error_reply E r code = (SetRcode (dlib E) new_Msg r code)\<lparr>RecursionAvailable := True\<rparr>"

definition step_begin :: "'n env \<Rightarrow> net_addr \<Rightarrow> Msg option \<Rightarrow> 'n world \<Rightarrow> phase \<times> 'n world" where
  "step_begin E remote req w =
     (if req = None \<or> Questions (the req) = [] then
        (Done (format_error E req), send remote (format_error E req) w)
      else
        let r = the req; q = hd (Questions r) in
        case records_Get (w_records w) (qName q) of
          None \<Rightarrow> (AllowCheck, w)
        | Some rec \<Rightarrow>
            if Typ rec = records_CNAME then
              (Chase (Answer (start_reply E r) @ [mk_CNAME (qName q) (Content rec @ ''.'')]) (Content rec @ ''.''), w)
            else if Typ rec = records_A then (Publish (handleA E (request_state remote q) r rec), w)
            else (AllowCheck, w))"

definition step_chase :: "'n env \<Rightarrow> Handler \<Rightarrow> Msg \<Rightarrow> RR list \<Rightarrow> string \<Rightarrow> record_store \<Rightarrow> phase" where
  "step_chase E h r ans target recs =
     (case records_Get recs target of
        None \<Rightarrow> Ask (ForTarget ans) (SetQuestion (dlib E) new_Msg target TypeA) (upstreamServers (forwarder h)) None
      | Some rec \<Rightarrow>
          if Typ rec = records_CNAME then Chase (ans @ [mk_CNAME target (Content rec @ ''.'')]) (Content rec @ ''.'')
          else if Typ rec = records_A then
            Publish ((start_reply E r)\<lparr>Answer := ans @ [mk_A target (Content rec)], Authoritative := True\<rparr>)
          else Chase ans target)"

definition asked :: "'n env \<Rightarrow> Msg \<Rightarrow> purpose \<Rightarrow> Msg \<Rightarrow> Msg" where
  "asked E r p response =
     (case p of
        ForTarget ans \<Rightarrow> (start_reply E r)\<lparr>Answer := ans @ Answer response\<rparr>
      | ForQuery \<Rightarrow> response)"

definition gave_up :: "'n env \<Rightarrow> Msg \<Rightarrow> purpose \<Rightarrow> phase" where
  "gave_up E r p =
     (case p of
        ForTarget ans \<Rightarrow> Publish ((start_reply E r)\<lparr>Answer := ans\<rparr>)
      | ForQuery \<Rightarrow> Fresh (error_reply E r RcodeServerFailure))"

fun step_ask :: "'n env \<Rightarrow> Handler \<Rightarrow> Msg \<Rightarrow> purpose \<Rightarrow> Msg \<Rightarrow> string list \<Rightarrow> goerror option \<Rightarrow> 'n world \<Rightarrow> (phase \<times> 'n world) outcome" where
  "step_ask E h r p m [] (Some err) w = Return (gave_up E r p, w)"
| "step_ask E h r p m [] None w = Panic"
| "step_ask E h r p m (server # servers) lastErr w =
     (case exchange (Exchange E) (forwarder h) server m (w_net w) of
        (Inl err, n) \<Rightarrow> Return (Ask p m servers (Some err), w\<lparr>w_net := n\<rparr>)
      | (Inr None, n) \<Rightarrow> Panic
      | (Inr (Some response), n) \<Rightarrow> Return (Publish (asked E r p response), w\<lparr>w_net := n\<rparr>))"

text \<open>The two loads of \<^verbatim>\<open>ShouldBlock\<close>: the allow list, then the block list.\<close>

definition step_allow :: "string \<Rightarrow> Filter option \<Rightarrow> phase" where
  "step_allow name fp =
     (case fp of
        None \<Rightarrow> CacheLookup
      | Some f \<Rightarrow>
          if \<not> enabled f then CacheLookup
          else if Matches (Some (currentAllowlist f)) name (blockSubdomains f) then CacheLookup
          else BlockCheck)"

definition step_block :: "string \<Rightarrow> Filter option \<Rightarrow> phase" where
  "step_block name fp =
     (case fp of
        None \<Rightarrow> CacheLookup
      | Some f \<Rightarrow> if Matches (Some (currentBlocklist f)) name (blockSubdomains f) then LogHit else CacheLookup)"

definition step_cache :: "'n env \<Rightarrow> Handler \<Rightarrow> net_addr \<Rightarrow> Msg \<Rightarrow> Question \<Rightarrow> 'n world \<Rightarrow> phase outcome" where
  "step_cache E h remote r q w =
     (case cache_Get (w_heap w) (w_cache w) (Now E (w_net w)) (request_key remote q) of
        Panic \<Rightarrow> Panic
      | Return None \<Rightarrow> Return (Ask ForQuery r (upstreamServers (forwarder h)) None)
      | Return (Some ref) \<Rightarrow> Return (CopyHit ref))"

text \<open>\<^verbatim>\<open>writeResponse\<close> on the object at an address, which others may read between its assignments.\<close>

definition step_write :: "'n env \<Rightarrow> net_addr \<Rightarrow> ref \<Rightarrow> 'n world \<Rightarrow> phase \<times> 'n world" where
  "step_write E remote a w =
     (let m = w_heap w ! a in
      if 0 < length (Answer m) \<and> MsgLen (dlib E) m > MaxMsgSize \<and> Network remote \<noteq> ''tcp'' then
        (Cutting a (MsgLen (dlib E) m), w\<lparr>w_heap := (w_heap w)[a := m\<lparr>Truncated := True\<rparr>]\<rparr>)
      else (Done m, send remote m w))"

definition step_cut :: "'n env \<Rightarrow> net_addr \<Rightarrow> ref \<Rightarrow> nat \<Rightarrow> 'n world \<Rightarrow> phase \<times> 'n world" where
  "step_cut E remote a msgSize w =
     (let m = w_heap w ! a in
      if msgSize > MaxMsgSize \<and> 0 < length (Answer m) then
        let m' = m\<lparr>Answer := take (length (Answer m) - 1) (Answer m)\<rparr>
        in (Cutting a (MsgLen (dlib E) m'), w\<lparr>w_heap := (w_heap w)[a := m']\<rparr>)
      else (Done m, send remote m w))"

fun proc_step :: "'n env \<Rightarrow> Handler \<Rightarrow> net_addr \<Rightarrow> Msg option \<Rightarrow> phase \<Rightarrow> 'n world \<Rightarrow> (phase \<times> 'n world) outcome" where
  "proc_step E h remote req Begin w = Return (step_begin E remote req w)"
| "proc_step E h remote req (Chase ans target) w = Return (step_chase E h (the req) ans target (w_records w), w)"
| "proc_step E h remote req (Ask p m servers lastErr) w = step_ask E h (the req) p m servers lastErr w"
| "proc_step E h remote req AllowCheck w = Return (step_allow (qName (hd (Questions (the req)))) (w_filter w), w)"
| "proc_step E h remote req BlockCheck w = Return (step_block (qName (hd (Questions (the req)))) (w_filter w), w)"
| "proc_step E h remote req LogHit w =
     (let q = hd (Questions (the req)) in
      Return (Fresh (error_reply E (the req) RcodeNameError),
        w\<lparr>w_filter := LogBlocked (dlib E) (Now E (w_net w)) (w_filter w) (AddrString remote) (qName q) (Qtype q)\<rparr>))"
| "proc_step E h remote req CacheLookup w =
     bind_outcome (step_cache E h remote (the req) (hd (Questions (the req))) w) (\<lambda>ph. Return (ph, w))"
| "proc_step E h remote req (CopyHit ref) w =
     Return (Fresh ((MsgCopy (dlib E) (w_heap w ! ref))\<lparr>MsgId := MsgId (the req), RecursionAvailable := True\<rparr>), w)"
| "proc_step E h remote req (Publish m) w =
     (let (ref, heap') = alloc (w_heap w) m in
      bind_outcome (cache_Set heap' (w_cache w) (Now E (w_net w)) (request_key remote (hd (Questions (the req)))) (Some ref))
        (\<lambda>cache'. Return (Writing ref, w\<lparr>w_heap := heap', w_cache := cache'\<rparr>)))"
| "proc_step E h remote req (Writing a) w = Return (step_write E remote a w)"
| "proc_step E h remote req (Cutting a msgSize) w = Return (step_cut E remote a msgSize w)"
| "proc_step E h remote req (Fresh m) w =
     Return (Done (written E remote m), send remote (written E remote m) w)"
| "proc_step E h remote req (Done m) w = Return (Done m, w)"

section \<open>What is left to do\<close>

text \<open>
  The outcome of a goroutine that goes on alone from a phase, put together from the operations of the
  handler in one piece.
\<close>

definition rest_publish :: "'n env \<Rightarrow> net_addr \<Rightarrow> Msg \<Rightarrow> Msg \<Rightarrow> 'n world \<Rightarrow> 'n world outcome option" where
  "rest_publish E remote r m w = Some (Return (store_and_send E remote (request_key remote (hd (Questions r))) m w))"

definition rest_fresh :: "'n env \<Rightarrow> net_addr \<Rightarrow> Msg \<Rightarrow> 'n world \<Rightarrow> 'n world outcome option" where
  "rest_fresh E remote m w = Some (Return (send remote (written E remote m) w))"

definition rest_gave_up :: "'n env \<Rightarrow> net_addr \<Rightarrow> Msg \<Rightarrow> purpose \<Rightarrow> 'n world \<Rightarrow> 'n world outcome option" where
  "rest_gave_up E remote r p w =
     (case p of
        ForTarget ans \<Rightarrow> rest_publish E remote r ((start_reply E r)\<lparr>Answer := ans\<rparr>) w
      | ForQuery \<Rightarrow> rest_fresh E remote (error_reply E r RcodeServerFailure) w)"

definition rest_ask ::
    "'n env \<Rightarrow> Handler \<Rightarrow> net_addr \<Rightarrow> Msg \<Rightarrow> purpose \<Rightarrow> Msg \<Rightarrow> string list \<Rightarrow> goerror option \<Rightarrow> 'n world \<Rightarrow> 'n world outcome option" where
  "rest_ask E h remote r p m servers e w =
     (case forward_loop (Exchange E) (forwarder h) m servers e (w_net w) of
        ((_, Some err), n) \<Rightarrow> rest_gave_up E remote r p (w\<lparr>w_net := n\<rparr>)
      | ((None, None), n) \<Rightarrow> Some Panic
      | ((Some response, None), n) \<Rightarrow> rest_publish E remote r (asked E r p response) (w\<lparr>w_net := n\<rparr>))"

definition rest_chase ::
    "'n env \<Rightarrow> Handler \<Rightarrow> net_addr \<Rightarrow> Msg \<Rightarrow> RR list \<Rightarrow> string \<Rightarrow> 'n world \<Rightarrow> 'n world outcome option" where
  "rest_chase E h remote r ans target w =
     (case cname_loop (w_records w) target ans of
        None \<Rightarrow> None
      | Some (Resolved a) \<Rightarrow> rest_publish E remote r ((start_reply E r)\<lparr>Answer := a, Authoritative := True\<rparr>) w
      | Some (Dangling t a) \<Rightarrow>
          rest_ask E h remote r (ForTarget a) (SetQuestion (dlib E) new_Msg t TypeA) (upstreamServers (forwarder h)) None w)"

definition rest_hit :: "'n env \<Rightarrow> net_addr \<Rightarrow> Msg \<Rightarrow> ref \<Rightarrow> 'n world \<Rightarrow> 'n world outcome option" where
  "rest_hit E remote r ref w =
     rest_fresh E remote ((MsgCopy (dlib E) (w_heap w ! ref))\<lparr>MsgId := MsgId r, RecursionAvailable := True\<rparr>) w"

definition rest_cache :: "'n env \<Rightarrow> Handler \<Rightarrow> net_addr \<Rightarrow> Msg \<Rightarrow> 'n world \<Rightarrow> 'n world outcome option" where
  "rest_cache E h remote r w =
     (case cache_Get (w_heap w) (w_cache w) (Now E (w_net w)) (request_key remote (hd (Questions r))) of
        Panic \<Rightarrow> Some Panic
      | Return None \<Rightarrow> rest_ask E h remote r ForQuery r (upstreamServers (forwarder h)) None w
      | Return (Some ref) \<Rightarrow> rest_hit E remote r ref w)"

definition rest_log :: "'n env \<Rightarrow> net_addr \<Rightarrow> Msg \<Rightarrow> 'n world \<Rightarrow> 'n world outcome option" where
  "rest_log E remote r w =
     (let q = hd (Questions r) in
      rest_fresh E remote (error_reply E r RcodeNameError)
        (w\<lparr>w_filter := LogBlocked (dlib E) (Now E (w_net w)) (w_filter w) (AddrString remote) (qName q) (Qtype q)\<rparr>))"

definition rest_block :: "'n env \<Rightarrow> Handler \<Rightarrow> net_addr \<Rightarrow> Msg \<Rightarrow> 'n world \<Rightarrow> 'n world outcome option" where
  "rest_block E h remote r w =
     (if step_block (qName (hd (Questions r))) (w_filter w) = LogHit then rest_log E remote r w
      else rest_cache E h remote r w)"

definition rest_allow :: "'n env \<Rightarrow> Handler \<Rightarrow> net_addr \<Rightarrow> Msg \<Rightarrow> 'n world \<Rightarrow> 'n world outcome option" where
  "rest_allow E h remote r w =
     (if ShouldBlock (w_filter w) (qName (hd (Questions r))) then rest_log E remote r w
      else rest_cache E h remote r w)"

definition rest_cut :: "'n env \<Rightarrow> net_addr \<Rightarrow> ref \<Rightarrow> nat \<Rightarrow> 'n world \<Rightarrow> 'n world outcome option" where
  "rest_cut E remote a s w =
     (let m = truncate_loop (dlib E) (w_heap w ! a) s
      in Some (Return (send remote m (w\<lparr>w_heap := (w_heap w)[a := m]\<rparr>))))"

fun rest :: "'n env \<Rightarrow> Handler \<Rightarrow> net_addr \<Rightarrow> Msg option \<Rightarrow> phase \<Rightarrow> 'n world \<Rightarrow> 'n world outcome option" where
  "rest E h remote req Begin w = HandleDNSRequest E h remote req w"
| "rest E h remote req (Chase ans t) w = rest_chase E h remote (the req) ans t w"
| "rest E h remote req (Ask p m servers e) w = rest_ask E h remote (the req) p m servers e w"
| "rest E h remote req AllowCheck w = rest_allow E h remote (the req) w"
| "rest E h remote req BlockCheck w = rest_block E h remote (the req) w"
| "rest E h remote req LogHit w = rest_log E remote (the req) w"
| "rest E h remote req CacheLookup w = rest_cache E h remote (the req) w"
| "rest E h remote req (CopyHit ref) w = rest_hit E remote (the req) ref w"
| "rest E h remote req (Publish m) w = rest_publish E remote (the req) m w"
| "rest E h remote req (Writing a) w = Some (Return (finish E remote a w))"
| "rest E h remote req (Cutting a s) w = rest_cut E remote a s w"
| "rest E h remote req (Fresh m) w = rest_fresh E remote m w"
| "rest E h remote req (Done m) w = Some (Return w)"

text \<open>A phase is live when the request has a question and the object being written exists.\<close>

definition has_question :: "Msg option \<Rightarrow> bool" where
  "has_question req \<longleftrightarrow> req \<noteq> None \<and> Questions (the req) \<noteq> []"

fun live :: "Msg option \<Rightarrow> phase \<Rightarrow> 'n world \<Rightarrow> bool" where
  "live req Begin w \<longleftrightarrow> True"
| "live req (Done m) w \<longleftrightarrow> True"
| "live req (Writing a) w \<longleftrightarrow> has_question req \<and> a < length (w_heap w)"
| "live req (Cutting a s) w \<longleftrightarrow> has_question req \<and> a < length (w_heap w)"
| "live req ph w \<longleftrightarrow> has_question req"

lemma has_questionE:
  assumes "has_question req"
  obtains r q qs where "req = Some r" "Questions r = q # qs"
  using assms by (cases req; cases "Questions (the req)") (auto simp: has_question_def)

lemma step_allow_rest:
  "(step_allow name fp = BlockCheck \<and> step_block name fp = LogHit) = ShouldBlock fp name"
  by (auto simp: step_allow_def step_block_def ShouldBlock_def split: option.splits)

lemma rest_allow_step:
  "rest E h remote req AllowCheck w = rest E h remote req (step_allow (qName (hd (Questions (the req)))) (w_filter w)) w"
  by (auto simp: rest_allow_def rest_block_def ShouldBlock_def step_allow_def step_block_def split: option.splits)

lemma rest_block_step:
  "rest E h remote req BlockCheck w = rest E h remote req (step_block (qName (hd (Questions (the req)))) (w_filter w)) w"
  by (auto simp: rest_block_def step_block_def split: option.splits)

lemma rest_ask_step:
  assumes "step_ask E h (the req) p m servers e w = Return (ph, w')"
  shows "rest E h remote req (Ask p m servers e) w = rest E h remote req ph w'"
proof (cases servers)
  case Nil
  with assms show ?thesis by (cases e) (auto simp: rest_ask_def rest_gave_up_def gave_up_def split: purpose.splits)
next
  case (Cons s ss)
  with assms show ?thesis
    by (auto simp: rest_ask_def split: prod.splits sum.splits option.splits)
qed

lemma rest_ask_panic:
  assumes "step_ask E h (the req) p m servers e w = Panic"
  shows "rest E h remote req (Ask p m servers e) w = Some Panic"
proof (cases servers)
  case Nil
  with assms show ?thesis by (cases e) (auto simp: rest_ask_def)
next
  case (Cons s ss)
  with assms show ?thesis by (auto simp: rest_ask_def split: prod.splits sum.splits option.splits)
qed

lemma rest_chase_step:
  "rest E h remote req (Chase ans t) w = rest E h remote req (step_chase E h (the req) ans t (w_records w)) w"
  unfolding rest.simps rest_chase_def step_chase_def
  by (subst cname_loop.simps) (auto simp: rest_chase_def split: option.splits)

lemma rest_cut_step:
  assumes "step_cut E remote a s w = (ph, w')" "a < length (w_heap w)"
  shows "rest E h remote req (Cutting a s) w = rest E h remote req ph w'"
proof (cases "s > MaxMsgSize \<and> 0 < length (Answer (w_heap w ! a))")
  case True
  with assms show ?thesis
    by (auto simp: step_cut_def rest_cut_def Let_def truncate_loop.simps [of "dlib E" "w_heap w ! a" s])
next
  case False
  with assms show ?thesis by (auto simp: step_cut_def rest_cut_def Let_def truncate_loop_stop)
qed

lemma rest_write_step:
  assumes "step_write E remote a w = (ph, w')" "a < length (w_heap w)"
  shows "rest E h remote req (Writing a) w = rest E h remote req ph w'"
  using assms
  by (auto simp: step_write_def rest_cut_def finish_def settle_def written_def fit_response_def Let_def send_def split: if_splits)

lemma rest_begin_malformed:
  "\<not> has_question req \<Longrightarrow> step_begin E remote req w = (Done (format_error E req), send remote (format_error E req) w) \<and>
     HandleDNSRequest E h remote req w = Some (Return (send remote (format_error E req) w))"
  by (auto simp: has_question_def step_begin_def HandleDNSRequest_def send_def)

lemma rest_begin_nonlocal:
  assumes "Questions r = q # qs" "no_local (w_records w) (qName q)"
  shows "HandleDNSRequest E h remote (Some r) w = rest_allow E h remote r w"
  using assms
  by (auto simp: HandleDNSRequest_nonlocal rest_allow_def rest_log_def rest_cache_def rest_hit_def rest_fresh_def rest_ask_def
      rest_publish_def rest_gave_up_def asked_def error_reply_def Forward_def Let_def
      split: option.splits outcome.splits prod.splits)

lemma rest_begin_cname:
  assumes "Questions r = q # qs" "records_Get (w_records w) (qName q) = Some rec" "Typ rec = records_CNAME"
  shows "HandleDNSRequest E h remote (Some r) w =
    rest_chase E h remote r (Answer (start_reply E r) @ [mk_CNAME (qName q) (Content rec @ ''.'')]) (Content rec @ ''.'') w"
proof -
  let ?res = "handleLocalRecord E h (w_records w) (request_state remote q) r (w_net w)"
  have nn: "?res \<noteq> Some (Return (None, n))" for n
    using assms by (auto simp: handleLocalRecord_None no_local_def)
  show ?thesis
    unfolding HandleDNSRequest_local [OF assms(1) refl nn]
    using assms
    by (auto simp: handleLocalRecord_def handleCNAME_def rest_chase_def rest_ask_def rest_gave_up_def rest_publish_def
        start_reply_def asked_def Forward_def Let_def
        split: option.splits outcome.splits prod.splits chain_end.splits)
qed

lemma rest_begin_step:
  assumes "step_begin E remote req w = (ph, w')"
  shows "HandleDNSRequest E h remote req w = rest E h remote req ph w'"
proof (cases "has_question req")
  case False
  with assms rest_begin_malformed [OF False, of E remote w h] show ?thesis by auto
next
  case True
  then obtain r q qs where req: "req = Some r" and q: "Questions r = q # qs" by (rule has_questionE)
  show ?thesis
  proof (cases "no_local (w_records w) (qName q)")
    case nl: True
    then have "ph = AllowCheck" "w' = w"
      using assms by (auto simp: step_begin_def req q no_local_def split: option.splits if_splits)
    with rest_begin_nonlocal [OF q nl] show ?thesis by (simp add: req)
  next
    case False
    then obtain rec where rec: "records_Get (w_records w) (qName q) = Some rec"
      and t: "Typ rec = records_CNAME \<or> Typ rec = records_A" by (auto simp: no_local_def)
    then show ?thesis
      using assms rest_begin_cname [OF q rec] HandleDNSRequest_address [OF q rec]
      by (auto simp: step_begin_def req q rest_publish_def)
  qed
qed

lemma rest_cache_step:
  "step_cache E h remote (the req) (hd (Questions (the req))) w = Return ph \<Longrightarrow>
     rest E h remote req CacheLookup w = rest E h remote req ph w"
  "step_cache E h remote (the req) (hd (Questions (the req))) w = Panic \<Longrightarrow>
     rest E h remote req CacheLookup w = Some Panic"
  by (auto simp: step_cache_def rest_cache_def split: option.splits outcome.splits)

lemma rest_publish_step:
  "proc_step E h remote req (Publish m) w = Return (ph, w') \<Longrightarrow>
     rest E h remote req (Publish m) w = rest E h remote req ph w'"
  by (auto simp: alloc_def cache_Set_put rest_publish_def store_and_send_def finish_def settle_def send_def)

text \<open>A step leaves the outcome as it is, and a panic is the outcome.\<close>

lemma rest_step:
  assumes "proc_step E h remote req ph w = Return (ph', w')" "live req ph w"
  shows "rest E h remote req ph w = rest E h remote req ph' w'"
proof (cases ph)
  case Begin
  then show ?thesis using assms rest_begin_step by simp
next
  case (Publish m)
  then show ?thesis using assms rest_publish_step by simp
next
  case (Writing a)
  then show ?thesis using assms rest_write_step [of E remote a w ph' w' h req] by simp
next
  case (Cutting a s)
  then show ?thesis using assms rest_cut_step [of E remote a s w ph' w' h req] by simp
next
  case CacheLookup
  then show ?thesis using assms rest_cache_step(1) by (auto simp: bind_outcome_Return_iff)
next
  case (Ask p m ss e)
  then show ?thesis using assms rest_ask_step by simp
next
  case (Chase ans t)
  then show ?thesis using assms rest_chase_step by auto
next
  case AllowCheck
  then show ?thesis using assms rest_allow_step by auto
next
  case BlockCheck
  then show ?thesis using assms rest_block_step by auto
next
  case LogHit
  then show ?thesis using assms by (auto simp: rest_log_def Let_def)
qed (use assms in \<open>auto simp: rest_hit_def rest_fresh_def\<close>)

lemma rest_panic:
  assumes "proc_step E h remote req ph w = Panic"
  shows "rest E h remote req ph w = Some Panic"
proof (cases ph)
  case (Ask p m ss e)
  then show ?thesis using assms rest_ask_panic by simp
next
  case CacheLookup
  then show ?thesis using assms rest_cache_step(2) [of E h remote req w]
    by (cases "step_cache E h remote (the req) (hd (Questions (the req))) w") auto
qed (use assms in \<open>auto simp: Let_def alloc_def cache_Set_put\<close>)

lemma live_step:
  assumes "proc_step E h remote req ph w = Return (ph', w')" "live req ph w"
  shows "live req ph' w'"
  using assms
proof (cases ph)
  case Begin
  then show ?thesis using assms
    by (auto simp: step_begin_def has_question_def Let_def split: if_splits option.splits)
next
  case (Ask p m ss e)
  then show ?thesis using assms
    by (cases ss; cases e) (auto simp: gave_up_def split: prod.splits sum.splits option.splits purpose.splits)
qed (auto simp: step_chase_def step_allow_def step_block_def step_cache_def step_write_def step_cut_def alloc_def cache_Set_put
    bind_outcome_Return_iff Let_def split: if_splits option.splits outcome.splits)

section \<open>A goroutine on its own\<close>

inductive alone ::
    "'n env \<Rightarrow> Handler \<Rightarrow> net_addr \<Rightarrow> Msg option \<Rightarrow> phase \<times> 'n world \<Rightarrow> phase \<times> 'n world \<Rightarrow> bool"
  for E h remote req where
  alone_step: "proc_step E h remote req ph w = Return (ph', w') \<Longrightarrow> (\<And>m. ph \<noteq> Done m) \<Longrightarrow>
     alone E h remote req (ph, w) (ph', w')"

inductive_cases aloneE: "alone E h remote req (ph, w) s"

lemma alone_rest:
  assumes "(alone E h remote req)\<^sup>*\<^sup>* s s'" "live req (fst s) (snd s)"
  shows "rest E h remote req (fst s) (snd s) = rest E h remote req (fst s') (snd s') \<and> live req (fst s') (snd s')"
  using assms
proof (induction rule: converse_rtranclp_induct)
  case (step s s1)
  obtain ph w ph' w' where s: "s = (ph, w)" "s1 = (ph', w')" by (metis prod.exhaust)
  with step.hyps(1) have "proc_step E h remote req ph w = Return (ph', w')" by (auto elim: aloneE)
  with rest_step [OF this] live_step [OF this] step s show ?case by auto
qed simp

text \<open>The goroutine comes to an end, in a reply or in a panic.\<close>

definition ends :: "'n env \<Rightarrow> Handler \<Rightarrow> net_addr \<Rightarrow> Msg option \<Rightarrow> phase \<times> 'n world \<Rightarrow> bool" where
  "ends E h remote req s \<longleftrightarrow>
     (\<exists>ph w. (alone E h remote req)\<^sup>*\<^sup>* s (ph, w) \<and> ((\<exists>m. ph = Done m) \<or> proc_step E h remote req ph w = Panic))"

lemma ends_Done: "ends E h remote req (Done m, w)"
  unfolding ends_def by (intro exI [of _ "Done m"] exI [of _ w]) simp

lemma ends_step:
  assumes "\<And>ph' w'. proc_step E h remote req ph w = Return (ph', w') \<Longrightarrow> ends E h remote req (ph', w')"
  shows "ends E h remote req (ph, w)"
proof (cases "\<exists>m. ph = Done m")
  case True
  then show ?thesis using ends_Done by metis
next
  case False
  show ?thesis
  proof (cases "proc_step E h remote req ph w")
    case Panic
    then show ?thesis unfolding ends_def by blast
  next
    case (Return s')
    obtain ph' w' where s': "s' = (ph', w')" by (cases s')
    with Return False have "alone E h remote req (ph, w) (ph', w')" by (auto intro: alone_step)
    with assms [of ph' w'] Return s' show ?thesis unfolding ends_def by (metis converse_rtranclp_into_rtranclp)
  qed
qed

lemma ends_Fresh: "ends E h remote req (Fresh m, w)"
  by (rule ends_step) (auto intro: ends_Done)

lemma ends_Cutting: "a < length (w_heap w) \<Longrightarrow> ends E h remote req (Cutting a s, w)"
proof (induction "length (Answer (w_heap w ! a))" arbitrary: w s rule: less_induct)
  case less
  show ?case
  proof (rule ends_step)
    fix ph' w' assume "proc_step E h remote req (Cutting a s) w = Return (ph', w')"
    then show "ends E h remote req (ph', w')"
      using less.hyps less.prems by (auto simp: step_cut_def Let_def ends_Done split: if_splits)
  qed
qed

lemma ends_Writing: "a < length (w_heap w) \<Longrightarrow> ends E h remote req (Writing a, w)"
  by (rule ends_step) (auto simp: step_write_def Let_def ends_Done ends_Cutting split: if_splits)

lemma ends_Publish: "ends E h remote req (Publish m, w)"
  by (rule ends_step) (auto simp: alloc_def cache_Set_put ends_Writing)

lemma ends_Ask: "ends E h remote req (Ask p m ss e, w)"
proof (induction ss arbitrary: e w)
  case Nil
  show ?case
    by (rule ends_step) (cases e; auto simp: gave_up_def ends_Publish ends_Fresh split: purpose.splits)
next
  case (Cons s ss)
  show ?case
    by (rule ends_step) (auto simp: ends_Publish Cons split: prod.splits sum.splits option.splits)
qed

lemma ends_CacheLookup: "ends E h remote req (CacheLookup, w)"
  by (rule ends_step)
    (auto simp: step_cache_def bind_outcome_Return_iff ends_Ask split: option.splits outcome.splits
      intro!: ends_step [of _ _ _ _ "CopyHit r" for r] ends_Fresh)

lemma ends_AllowCheck: "ends E h remote req (AllowCheck, w)" "ends E h remote req (BlockCheck, w)" "ends E h remote req (LogHit, w)"
proof -
  show l: "ends E h remote req (LogHit, w)" by (rule ends_step) (auto simp: Let_def ends_Fresh)
  show b: "ends E h remote req (BlockCheck, w)"
    by (rule ends_step) (auto simp: step_block_def ends_CacheLookup l split: option.splits)
  show "ends E h remote req (AllowCheck, w)"
    by (rule ends_step) (auto simp: step_allow_def ends_CacheLookup b split: option.splits)
qed

lemma ends_Chase: "iterate (cname_next (w_records w)) n t = None \<Longrightarrow> ends E h remote req (Chase ans t, w)"
proof (induction n arbitrary: t ans)
  case (Suc n)
  show ?case
    by (rule ends_step)
      (use Suc in \<open>auto simp: step_chase_def cname_next_def ends_Ask ends_Publish split: option.splits if_splits\<close>)
qed simp

lemma ends_Begin:
  assumes "HandleDNSRequest E h remote req w \<noteq> None"
  shows "ends E h remote req (Begin, w)"
proof (rule ends_step)
  fix ph' w' assume "proc_step E h remote req Begin w = Return (ph', w')"
  then have b: "step_begin E remote req w = (ph', w')" by simp
  show "ends E h remote req (ph', w')"
  proof (cases ph')
    case (Chase ans t)
    have "rest E h remote req ph' w' \<noteq> None" using assms rest_begin_step [OF b, of h] by simp
    then have "cname_loop (w_records w') t ans \<noteq> None"
      by (cases "cname_loop (w_records w') t ans") (simp_all add: Chase rest_chase_def)
    then show ?thesis using cname.returns_iff_ends [of "w_records w'" t ans] ends_Chase Chase by metis
  qed (use b in \<open>auto simp: step_begin_def Let_def ends_Done ends_Publish ends_AllowCheck split: if_splits option.splits\<close>)
qed

lemma alone_handler:
  assumes "(alone E h remote req)\<^sup>*\<^sup>* (Begin, w) (ph, w')"
  shows "HandleDNSRequest E h remote req w = rest E h remote req ph w'"
  using alone_rest [OF assms] by simp

text \<open>
  C5: A goroutine that is not interrupted does what the handler does in one piece: it comes to its end
  with a world exactly when the handler returns that world, it panics exactly when the handler
  panics, and it runs for ever exactly when the handler does not return. So every theorem about the
  handler is one about the small steps that interleave.
\<close>

theorem goroutine_is_handler:
  "((\<exists>m. (alone E h remote req)\<^sup>*\<^sup>* (Begin, w) (Done m, w')) \<longleftrightarrow> HandleDNSRequest E h remote req w = Some (Return w')) \<and>
   ((\<exists>ph w1. (alone E h remote req)\<^sup>*\<^sup>* (Begin, w) (ph, w1) \<and> proc_step E h remote req ph w1 = Panic) \<longleftrightarrow>
      HandleDNSRequest E h remote req w = Some Panic) \<and>
   (ends E h remote req (Begin, w) \<longleftrightarrow> HandleDNSRequest E h remote req w \<noteq> None)"
proof -
  let ?H = "HandleDNSRequest E h remote req w"
  have fin: "?H = Some (Return w1)" if "(alone E h remote req)\<^sup>*\<^sup>* (Begin, w) (Done m, w1)" for m w1
    using alone_handler [OF that] by simp
  have panic: "?H = Some Panic" if "(alone E h remote req)\<^sup>*\<^sup>* (Begin, w) (ph, w1)" "proc_step E h remote req ph w1 = Panic" for ph w1
    using alone_handler [OF that(1)] rest_panic [OF that(2)] by simp
  have "(\<exists>m. (alone E h remote req)\<^sup>*\<^sup>* (Begin, w) (Done m, w1)) \<or>
      (\<exists>ph w1. (alone E h remote req)\<^sup>*\<^sup>* (Begin, w) (ph, w1) \<and> proc_step E h remote req ph w1 = Panic)"
    if "?H = Some (Return w1)" for w1
    using ends_Begin [of E h remote req w] that fin unfolding ends_def by fastforce
  moreover have "\<exists>ph w1. (alone E h remote req)\<^sup>*\<^sup>* (Begin, w) (ph, w1) \<and> proc_step E h remote req ph w1 = Panic" if "?H = Some Panic"
    using ends_Begin [of E h remote req w] that fin unfolding ends_def by fastforce
  moreover have "?H \<noteq> None" if "ends E h remote req (Begin, w)" using that fin panic unfolding ends_def by fastforce
  ultimately show ?thesis using fin panic ends_Begin [of E h remote req w] by fastforce
qed

text \<open>
  C11: Whatever other requests, reloads and refreshes have done in between: when the store has no CNAME
  cycle, a goroutine in any phase comes to its end once it is left to run.
\<close>

theorem goroutine_ends:
  assumes "live req ph w" and "\<forall>t. \<exists>n. iterate (cname_next (w_records w)) n t = None"
  shows "ends E h remote req (ph, w)"
proof (cases ph)
  case Begin
  show ?thesis unfolding Begin
    by (rule ends_step) (use assms(2) in \<open>auto simp: step_begin_def Let_def ends_Done ends_Publish ends_AllowCheck
      intro: ends_Chase split: if_splits option.splits\<close>)
next
  case (Chase ans t)
  then show ?thesis using assms(2) ends_Chase by metis
next
  case (CopyHit ref)
  show ?thesis unfolding CopyHit by (rule ends_step) (auto intro: ends_Fresh)
qed (use assms(1) in \<open>auto simp: ends_Done ends_Publish ends_AllowCheck ends_CacheLookup ends_Ask ends_Writing ends_Cutting ends_Fresh\<close>)

theorem goroutine_ends_witness:
  "ends (sample_env Map.empty) sample_handler sample_client (Some (sample_request ''web.local.'' TypeA))
     (Chase [] ''db.local.'', sample_world Map.empty None)"
proof (rule goroutine_ends)
  show "live (Some (sample_request ''web.local.'' TypeA)) (Chase [] ''db.local.'') (sample_world Map.empty None)"
    by (simp add: has_question_def)
  have "iterate (cname_next Map.empty) 1 t = None" for t by (simp add: cname_next_def records_Get_empty)
  then show "\<forall>t. \<exists>n. iterate (cname_next (w_records (sample_world Map.empty None))) n t = None"
    unfolding sample_world_simps by blast
qed

end
