(* ===== verification/GoEncoding.thy ===== *)
theory GoEncoding
  imports GoStrings
begin

unbundle bit_operations_syntax

text \<open>
  Go's \<^verbatim>\<open>encoding/hex\<close>, \<^verbatim>\<open>encoding/base64\<close> and \<^verbatim>\<open>crypto/sha256\<close>, as the list loader uses them
  for cache file names and for basic authentication, and the width of a UTF-8 sequence, by which
  a \<^verbatim>\<open>range\<close> loop over a string advances.
\<close>

section \<open>Hexadecimal and base 64\<close>

definition hex_digit :: "nat \<Rightarrow> char" where
  "hex_digit d = (if d < 10 then char_of (48 + d) else char_of (87 + d))"

definition EncodeToString :: "u8 list \<Rightarrow> string" where
  "EncodeToString bs = concat (map (\<lambda>b. [hex_digit (unat b div 16), hex_digit (unat b mod 16)]) bs)"

definition base64_char :: "nat \<Rightarrow> char" where
  "base64_char n =
     (if n < 26 then char_of (65 + n)
      else if n < 52 then char_of (71 + n)
      else if n < 62 then char_of (n - 4)
      else if n = 62 then CHR ''+'' else CHR ''/'')"

text \<open>\<^verbatim>\<open>base64.StdEncoding\<close>, with padding.\<close>

fun base64 :: "string \<Rightarrow> string" where
  "base64 [] = []"
| "base64 [a] =
     (let n = of_char a * 65536 in
      [base64_char (n div 262144), base64_char (n div 4096 mod 64), CHR ''='', CHR ''=''])"
| "base64 [a, b] =
     (let n = of_char a * 65536 + of_char b * 256 in
      [base64_char (n div 262144), base64_char (n div 4096 mod 64), base64_char (n div 64 mod 64), CHR ''=''])"
| "base64 (a # b # c # s) =
     (let n = of_char a * 65536 + of_char b * 256 + of_char c in
      [base64_char (n div 262144), base64_char (n div 4096 mod 64),
       base64_char (n div 64 mod 64), base64_char (n mod 64)] @ base64 s)"

section \<open>SHA-256\<close>

text \<open>
  The constants of the algorithm are the first 32 bits of the fractional parts of the cube roots of
  the first 64 primes and of the square roots of the first 8. A root is found bit by bit: the
  largest number of \<open>b\<close> more bits whose power does not exceed the argument.
\<close>

fun root_bits :: "nat \<Rightarrow> int \<Rightarrow> nat \<Rightarrow> int \<Rightarrow> int" where
  "root_bits k x 0 r = r"
| "root_bits k x (Suc b) r = root_bits k x b (if (r + 2 ^ b) ^ k \<le> x then r + 2 ^ b else r)"

definition frac_root :: "nat \<Rightarrow> int \<Rightarrow> u32" where
  "frac_root k p = of_int (root_bits k (p * 2 ^ (32 * k)) 40 0)"

definition first_primes :: "int list" where
  "first_primes = filter (\<lambda>n. list_all (\<lambda>d. \<not> d dvd n) [2..n - 1]) [2..311]"

definition sha_K :: "u32 list" where
  "sha_K = map (frac_root 3) first_primes"

definition sha_init :: "u32 list" where
  "sha_init = map (frac_root 2) (take 8 first_primes)"

definition rotr :: "nat \<Rightarrow> u32 \<Rightarrow> u32" where
  "rotr n x = drop_bit n x OR push_bit (32 - n) x"

text \<open>The message schedule, newest word first.\<close>

fun sha_schedule :: "nat \<Rightarrow> u32 list \<Rightarrow> u32 list" where
  "sha_schedule 0 ws = ws"
| "sha_schedule (Suc k) ws =
     (let w2 = ws ! 1; w15 = ws ! 14;
          s0 = (rotr 7 w15 XOR rotr 18 w15) XOR drop_bit 3 w15;
          s1 = (rotr 17 w2 XOR rotr 19 w2) XOR drop_bit 10 w2
      in sha_schedule k ((ws ! 15 + s0 + ws ! 6 + s1) # ws))"

definition sha_round :: "u32 list \<Rightarrow> u32 \<times> u32 \<Rightarrow> u32 list" where
  "sha_round st kw =
     (case st of
        [a, b, c, d, e, f, g, h] \<Rightarrow>
          let s1 = (rotr 6 e XOR rotr 11 e) XOR rotr 25 e;
              ch = (e AND f) XOR (NOT e AND g);
              t1 = h + s1 + ch + fst kw + snd kw;
              s0 = (rotr 2 a XOR rotr 13 a) XOR rotr 22 a;
              maj = ((a AND b) XOR (a AND c)) XOR (b AND c)
          in [t1 + (s0 + maj), a, b, c, d + t1, e, f, g]
      | _ \<Rightarrow> st)"

definition be_word :: "u8 list \<Rightarrow> u32" where
  "be_word bs = foldl (\<lambda>w b. push_bit 8 w OR ucast b) 0 bs"

fun chunks :: "nat \<Rightarrow> nat \<Rightarrow> 'a list \<Rightarrow> 'a list list" where
  "chunks 0 n xs = []"
| "chunks (Suc k) n xs = take n xs # chunks k n (drop n xs)"

definition sha_block :: "u32 list \<Rightarrow> u8 list \<Rightarrow> u32 list" where
  "sha_block st block =
     (let ws = rev (sha_schedule 48 (rev (map be_word (chunks 16 4 block))))
      in map2 (+) st (foldl sha_round st (zip sha_K ws)))"

definition sha_pad :: "u8 list \<Rightarrow> u8 list" where
  "sha_pad m =
     (let l = length m; z = (119 - l mod 64) mod 64
      in m @ [0x80] @ replicate z 0 @ map (\<lambda>i. of_int (8 * int l div 256 ^ i)) [7, 6, 5, 4, 3, 2, 1, 0])"

definition Sum256 :: "string \<Rightarrow> u8 list" where
  "Sum256 s =
     (let m = sha_pad (map (\<lambda>c. of_nat (of_char c)) s)
      in concat (map (\<lambda>w. [ucast (drop_bit 24 w), ucast (drop_bit 16 w), ucast (drop_bit 8 w), ucast w])
           (foldl sha_block sha_init (chunks (length m div 64) 64 m))))"

section \<open>UTF-8\<close>

text \<open>
  \<^verbatim>\<open>utf8.DecodeRune\<close>: the number of bytes of the first code point; one byte for a byte that
  starts no valid sequence.
\<close>

definition in_bytes :: "nat \<Rightarrow> nat \<Rightarrow> string \<Rightarrow> nat \<Rightarrow> bool" where
  "in_bytes lo hi s i \<longleftrightarrow> i < length s \<and> lo \<le> of_char (s ! i) \<and> of_char (s ! i) \<le> hi"

definition rune_width :: "string \<Rightarrow> nat" where
  "rune_width s =
     (let cont = in_bytes 0x80 0xBF s;
          b = (\<lambda>lo hi. in_bytes lo hi s 0)
      in
      if b 0xC2 0xDF \<and> cont 1 then 2
      else if b 0xE0 0xE0 \<and> in_bytes 0xA0 0xBF s 1 \<and> cont 2 then 3
      else if (b 0xE1 0xEC \<or> b 0xEE 0xEF) \<and> cont 1 \<and> cont 2 then 3
      else if b 0xED 0xED \<and> in_bytes 0x80 0x9F s 1 \<and> cont 2 then 3
      else if b 0xF0 0xF0 \<and> in_bytes 0x90 0xBF s 1 \<and> cont 2 \<and> cont 3 then 4
      else if b 0xF1 0xF3 \<and> cont 1 \<and> cont 2 \<and> cont 3 then 4
      else if b 0xF4 0xF4 \<and> in_bytes 0x80 0x8F s 1 \<and> cont 2 \<and> cont 3 then 4
      else 1)"

lemma rune_width_pos: "0 < rune_width s"
  by (simp add: rune_width_def Let_def)

lemma rune_width_ascii: "of_char c < (128::nat) \<Longrightarrow> rune_width (c # s) = 1"
  by (simp add: rune_width_def in_bytes_def Let_def)

lemma hex_digit_cases: "d < 16 \<Longrightarrow> of_char (hex_digit d) = (if d < 10 then 48 + d else 87 + d)"
  by (simp add: hex_digit_def)

lemma set_EncodeToString: "c \<in> set (EncodeToString bs) \<Longrightarrow> \<exists>d < 16. c = hex_digit d"
proof -
  assume "c \<in> set (EncodeToString bs)"
  then obtain b :: u8 where "c = hex_digit (unat b div 16) \<or> c = hex_digit (unat b mod 16)"
    by (auto simp: EncodeToString_def)
  moreover have "unat b div 16 < 16" "unat b mod 16 < 16"
    using unsigned_less [of b, where 'a = nat] by (simp_all add: div_less_iff_less_mult)
  ultimately show ?thesis by blast
qed

end
