(* ===== verification/Loader.thy ===== *)
theory Loader
  imports DnsFilter GoEncoding GoPath
begin

text \<open>
  \<^verbatim>\<open>pkg/filtering/loader.go\<close> and \<^verbatim>\<open>allowlist.go\<close>: downloading block lists, keeping a copy of them on
  disk, and reading the allow list. The operating system and the HTTP client are a record of
  parameters that act on a state \<open>'n\<close> of the outside world.
\<close>

section \<open>The outside world\<close>

record http_request =
  reqURL :: string
  reqHeader :: "string \<rightharpoonup> string"

record http_response =
  StatusCode :: int
  Body :: reader

text \<open>
  \<open>NewRequest\<close> is the error of \<^verbatim>\<open>http.NewRequestWithContext\<close> for a URL, if any; \<open>HttpDo\<close> is
  \<^verbatim>\<open>Client.Do\<close>. A read leaves the world as it is.
\<close>

record 'n osenv =
  MkdirAll :: "string \<Rightarrow> 'n \<Rightarrow> goerror option \<times> 'n"
  ReadFile :: "string \<Rightarrow> 'n \<Rightarrow> goerror + string"
  WriteFile :: "string \<Rightarrow> string \<Rightarrow> 'n \<Rightarrow> goerror option \<times> 'n"
  OpenFile :: "string \<Rightarrow> 'n \<Rightarrow> goerror + reader"
  NewRequest :: "string \<Rightarrow> goerror option"
  HttpDo :: "http_request \<Rightarrow> 'n \<Rightarrow> (goerror + http_response) \<times> 'n"

datatype loader_log =
    CacheDirFailed string goerror
  | ListFailed string goerror
  | CacheWriteFailed string goerror
  | UsingCached string goerror
  | ParserLog parse_log

section \<open>Requests\<close>

text \<open>\<^verbatim>\<open>http.Header.Set\<close> stores under the canonical form of the key.\<close>

definition token_char :: "char \<Rightarrow> bool" where
  "token_char c \<longleftrightarrow> (let n = (of_char c :: nat) in
     (48 \<le> n \<and> n \<le> 57) \<or> (65 \<le> n \<and> n \<le> 90) \<or> (97 \<le> n \<and> n \<le> 122)) \<or>
     c \<in> {CHR ''!'', CHR ''#'', CHR ''$'', CHR ''%'', CHR ''&'', CHR 0x27, CHR ''*'', CHR ''+'',
          CHR ''-'', CHR ''.'', CHR ''^'', CHR ''_'', CHR 0x60, CHR ''|'', CHR ''~''}"

definition upperc :: "char \<Rightarrow> char" where
  "upperc c = (let n = (of_char c :: nat) in if 97 \<le> n \<and> n \<le> 122 then char_of (n - 32) else c)"

fun canonical_acc :: "bool \<Rightarrow> string \<Rightarrow> string" where
  "canonical_acc up [] = []"
| "canonical_acc up (c # s) = (if up then upperc c else lowerc c) # canonical_acc (c = CHR ''-'') s"

definition CanonicalHeaderKey :: "string \<Rightarrow> string" where
  "CanonicalHeaderKey s = (if list_all token_char s then canonical_acc True s else s)"

definition Header_Set :: "string \<Rightarrow> string \<Rightarrow> http_request \<Rightarrow> http_request" where
  "Header_Set k v req = req\<lparr>reqHeader := (reqHeader req)(CanonicalHeaderKey k \<mapsto> v)\<rparr>"

definition SetBasicAuth :: "string \<Rightarrow> string \<Rightarrow> http_request \<Rightarrow> http_request" where
  "SetBasicAuth user pass req = Header_Set ''Authorization'' (''Basic '' @ base64 (user @ '':'' @ pass)) req"

definition applyAuth :: "http_request \<Rightarrow> AuthConfig \<Rightarrow> http_request" where
  "applyAuth req auth =
     (let req1 = (if Username auth \<noteq> [] \<or> Password auth \<noteq> []
                  then SetBasicAuth (Username auth) (Password auth) req else req)
      in
      if Token auth \<noteq> [] then
        let header = (if AuthHeader auth = [] then ''Authorization'' else AuthHeader auth);
            scheme = (if Scheme auth = [] then ''Bearer'' else Scheme auth)
        in Header_Set header (TrimSpace (scheme @ '' '' @ Token auth)) req1
      else req1)"

definition isURL :: "string \<Rightarrow> bool" where
  "isURL location \<longleftrightarrow> HasPrefix location ''http://'' \<or> HasPrefix location ''https://''"

definition format_int :: "int \<Rightarrow> string" where
  "format_int i = (if i < 0 then ''-'' @ Itoa (nat (- i)) else Itoa (nat i))"

definition ReadAll :: "reader \<Rightarrow> goerror + string" where
  "ReadAll r = (case rd_err r of None \<Rightarrow> Inr (rd_data r) | Some e \<Rightarrow> Inl e)"

definition download :: "'n osenv \<Rightarrow> Source \<Rightarrow> 'n \<Rightarrow> (goerror + string) \<times> 'n" where
  "download S source n =
     (case NewRequest S (Location source) of
        Some err \<Rightarrow> (Inl err, n)
      | None \<Rightarrow>
          (case HttpDo S (applyAuth \<lparr>reqURL = Location source, reqHeader = Map.empty\<rparr> (Auth source)) n of
             (Inl err, n') \<Rightarrow> (Inl err, n')
           | (Inr resp, n') \<Rightarrow>
               if StatusCode resp < 200 \<or> StatusCode resp \<ge> 300
               then (Inl (''unexpected status '' @ format_int (StatusCode resp)), n')
               else (ReadAll (Body resp), n')))"

section \<open>The cache on disk\<close>

definition EnsureCacheDir :: "'n osenv \<Rightarrow> string \<Rightarrow> 'n \<Rightarrow> string \<times> loader_log list \<times> 'n" where
  "EnsureCacheDir S dir n =
     (if dir = [] then ([], [], n)
      else (case MkdirAll S dir n of
          (Some err, n') \<Rightarrow> ([], [CacheDirFailed dir err], n')
        | (None, n') \<Rightarrow> (dir, [], n')))"

text \<open>The \<^verbatim>\<open>range\<close> loop of \<^verbatim>\<open>sanitizeID\<close>, one code point at a time.\<close>

definition id_char :: "char \<Rightarrow> bool" where
  "id_char c \<longleftrightarrow> (let n = (of_char c :: nat) in (97 \<le> n \<and> n \<le> 122) \<or> (48 \<le> n \<and> n \<le> 57))"

function sanitize_runes :: "string \<Rightarrow> string" where
  "sanitize_runes s =
     (case s of
        [] \<Rightarrow> []
      | c # t \<Rightarrow> if id_char c then c # sanitize_runes t else CHR ''_'' # sanitize_runes (drop (rune_width s) s))"
  by pat_completeness auto
termination
  by (relation "measure length") (auto simp: rune_width_pos)

declare sanitize_runes.simps [simp del]

definition sanitizeID :: "string \<Rightarrow> string" where
  "sanitizeID raw0 =
     (let raw = ToLower (TrimSpace raw0) in
      if raw = [] then [] else sanitize_runes raw)"

definition cacheFileName :: "Source \<Rightarrow> string" where
  "cacheFileName source =
     (let sid = sanitizeID (SourceID source);
          sid' = (if sid = [] then ''custom-'' @ EncodeToString (take 8 (Sum256 (Location source))) else sid)
      in sid' @ ''.txt'')"

definition cache_path :: "string \<Rightarrow> Source \<Rightarrow> string" where
  "cache_path dir source = PathJoin [dir, cacheFileName source]"

definition writeCache :: "'n osenv \<Rightarrow> string \<Rightarrow> Source \<Rightarrow> string \<Rightarrow> 'n \<Rightarrow> goerror option \<times> 'n" where
  "writeCache S dir source data n = WriteFile S (cache_path dir source) data n"

definition readCache :: "'n osenv \<Rightarrow> string \<Rightarrow> Source \<Rightarrow> 'n \<Rightarrow> goerror + string" where
  "readCache S dir source n = ReadFile S (cache_path dir source) n"

section \<open>Loading\<close>

text \<open>The data of a source and whether it came from the cache on disk.\<close>

definition readSource ::
    "'n osenv \<Rightarrow> Source \<Rightarrow> string \<Rightarrow> 'n \<Rightarrow> (goerror + string \<times> bool) \<times> loader_log list \<times> 'n" where
  "readSource S source dir n =
     (if isURL (Location source) then
        (case download S source n of
           (Inr data, n') \<Rightarrow> (Inr (data, False), [], n')
         | (Inl err, n') \<Rightarrow>
             if dir = [] then (Inl err, [], n')
             else (case readCache S dir source n' of
                 Inl cacheErr \<Rightarrow> (Inl (''download failed: '' @ err @ ''; cache error: '' @ cacheErr), [], n')
               | Inr cached \<Rightarrow> (Inr (cached, True), [UsingCached (SourceID source) err], n')))
      else
        (case ReadFile S (Location source) n of
           Inl err \<Rightarrow> (Inl (''read file: '' @ err), [], n)
         | Inr data \<Rightarrow> (Inr (data, False), [], n)))"

definition bytes_reader :: "string \<Rightarrow> reader" where
  "bytes_reader data = \<lparr>rd_data = data, rd_err = None\<rparr>"

definition loadSource ::
    "dnslib \<Rightarrow> 'n osenv \<Rightarrow> int \<Rightarrow> string \<Rightarrow> Source \<Rightarrow> 'n \<Rightarrow> (goerror + DomainSet) \<times> loader_log list \<times> 'n" where
  "loadSource L S limit dir source n =
     (case readSource S source dir n of
        (Inl err, logs, n') \<Rightarrow> (Inl err, logs, n')
      | (Inr (data, fromCache), logs, n') \<Rightarrow>
          (case parseList L (bytes_reader data) \<lparr>ListID = SourceID source, ErrorLimit = limit\<rparr> of
             (Inl err, plogs) \<Rightarrow> (Inl err, logs @ map ParserLog plogs, n')
           | (Inr s, plogs) \<Rightarrow>
               if \<not> fromCache \<and> dir \<noteq> [] \<and> isURL (Location source) then
                 (case writeCache S dir source data n' of
                    (Some err, n'') \<Rightarrow>
                      (Inr s, logs @ map ParserLog plogs @ [CacheWriteFailed (SourceID source) err], n'')
                  | (None, n'') \<Rightarrow> (Inr s, logs @ map ParserLog plogs, n''))
               else (Inr s, logs @ map ParserLog plogs, n')))"

fun load_loop ::
    "dnslib \<Rightarrow> 'n osenv \<Rightarrow> int \<Rightarrow> string \<Rightarrow> Source list \<Rightarrow> DomainSet \<Rightarrow> 'n \<Rightarrow> DomainSet \<times> loader_log list \<times> 'n" where
  "load_loop L S limit dir [] merged n = (merged, [], n)"
| "load_loop L S limit dir (source # rest) merged n =
     (if \<not> SourceEnabled source then load_loop L S limit dir rest merged n
      else (case loadSource L S limit dir source n of
          (Inl err, logs, n') \<Rightarrow>
            (case load_loop L S limit dir rest merged n' of
               (s, logs', n'') \<Rightarrow> (s, logs @ ListFailed (SourceID source) err # logs', n''))
        | (Inr d, logs, n') \<Rightarrow>
            (case load_loop L S limit dir rest (Merge merged (Some d)) n' of
               (s, logs', n'') \<Rightarrow> (s, logs @ logs', n''))))"

definition LoadSources ::
    "dnslib \<Rightarrow> 'n osenv \<Rightarrow> Source list \<Rightarrow> string \<Rightarrow> int \<Rightarrow> 'n \<Rightarrow> (goerror + DomainSet) \<times> loader_log list \<times> 'n" where
  "LoadSources L S srcs dir0 limit n =
     (case EnsureCacheDir S dir0 n of
        (dir, logs, n') \<Rightarrow>
          (case load_loop L S limit dir srcs NewDomainSet n' of
             (merged, logs', n'') \<Rightarrow> (Inr merged, logs @ logs', n'')))"

definition loadAllowlist :: "dnslib \<Rightarrow> reader \<Rightarrow> string \<Rightarrow> int \<Rightarrow> (goerror + DomainSet) \<times> parse_log list" where
  "loadAllowlist L r listID limit =
     (case parseList L r \<lparr>ListID = listID, ErrorLimit = limit\<rparr> of
        (Inl err, logs) \<Rightarrow> (Inl err, logs)
      | (Inr s, logs) \<Rightarrow> (Inr s, logs))"

definition LoadAllowlist :: "dnslib \<Rightarrow> 'n osenv \<Rightarrow> string \<Rightarrow> int \<Rightarrow> 'n \<Rightarrow> (goerror + DomainSet) \<times> parse_log list" where
  "LoadAllowlist L S path limit n =
     (if path = [] then (Inr NewDomainSet, [])
      else (case OpenFile S path n of
          Inl err \<Rightarrow> (Inl (''open allowlist: '' @ err), [])
        | Inr file \<Rightarrow> loadAllowlist L file ''allowlist'' limit))"


section \<open>What a load yields\<close>

text \<open>The results of the enabled sources, each loaded in the world the one before it left.\<close>

fun load_results ::
    "dnslib \<Rightarrow> 'n osenv \<Rightarrow> int \<Rightarrow> string \<Rightarrow> Source list \<Rightarrow> 'n \<Rightarrow> (Source \<times> (goerror + DomainSet)) list" where
  "load_results L S limit dir [] n = []"
| "load_results L S limit dir (source # rest) n =
     (if \<not> SourceEnabled source then load_results L S limit dir rest n
      else (case loadSource L S limit dir source n of
          (res, logs, n') \<Rightarrow> (source, res) # load_results L S limit dir rest n'))"

definition loaded_sets :: "(Source \<times> (goerror + DomainSet)) list \<Rightarrow> DomainSet list" where
  "loaded_sets rs = concat (map (\<lambda>(s, res). case res of Inl _ \<Rightarrow> [] | Inr d \<Rightarrow> [d]) rs)"

lemma loaded_sets_simps [simp]:
  "loaded_sets [] = []" "loaded_sets ((s, Inl e) # rs) = loaded_sets rs"
  "loaded_sets ((s, Inr d) # rs) = d # loaded_sets rs"
  by (simp_all add: loaded_sets_def)

lemma load_loop_merges:
  "fst (load_loop L S limit dir srcs merged n) =
     merge_all merged (loaded_sets (load_results L S limit dir srcs n))"
proof (induction srcs arbitrary: merged n)
  case (Cons s srcs)
  obtain res logs n' where "loadSource L S limit dir s n = (res, logs, n')" by (metis prod.exhaust)
  with Cons show ?case by (cases res) (simp_all add: case_prod_beta)
qed simp

lemma set_loaded_sets: "d \<in> set (loaded_sets rs) \<longleftrightarrow> (\<exists>s. (s, Inr d) \<in> set rs)"
  by (induction rs) (auto simp: loaded_sets_def split: sum.splits)

lemma load_results_disabled:
  "(s, res) \<in> set (load_results L S limit dir srcs n) \<Longrightarrow> s \<in> set srcs \<and> SourceEnabled s"
  by (induction srcs arbitrary: n) (auto split: prod.splits if_splits)

lemma LoadSources_eq:
  "\<exists>logs n'. LoadSources L S srcs dir limit n =
     (Inr (merge_all NewDomainSet (loaded_sets (load_results L S limit (fst (EnsureCacheDir S dir n)) srcs
        (snd (snd (EnsureCacheDir S dir n)))))), logs, n')"
  using load_loop_merges [of L S limit "fst (EnsureCacheDir S dir n)" srcs NewDomainSet "snd (snd (EnsureCacheDir S dir n))"]
  by (auto simp: LoadSources_def split: prod.splits)

text \<open>
  Loading the sources never fails as a whole: a source that cannot be read or parsed is skipped,
  and the result matches a name exactly when the list of one of the enabled sources that
  loaded does.
\<close>

theorem LoadSources_matches:
  "\<exists>d logs n'. LoadSources L S srcs dir limit n = (Inr d, logs, n') \<and>
     (\<forall>name sub. Matches (Some d) name sub \<longleftrightarrow>
        (\<exists>s e. (s, Inr e) \<in> set (load_results L S limit (fst (EnsureCacheDir S dir n)) srcs
            (snd (snd (EnsureCacheDir S dir n)))) \<and> Matches (Some e) name sub))"
proof -
  let ?rs = "load_results L S limit (fst (EnsureCacheDir S dir n)) srcs (snd (snd (EnsureCacheDir S dir n)))"
  have "Matches (Some (merge_all NewDomainSet (loaded_sets ?rs))) name sub \<longleftrightarrow>
      (\<exists>s e. (s, Inr e) \<in> set ?rs \<and> Matches (Some e) name sub)" for name sub
    unfolding domains.matches_merge_all_empty Bex_def set_loaded_sets by blast
  with LoadSources_eq [of L S srcs dir limit n] show ?thesis by blast
qed

section \<open>Cache files\<close>

definition cache_char :: "char \<Rightarrow> bool" where
  "cache_char c \<longleftrightarrow> id_char c \<or> c = CHR ''_'' \<or> c = CHR ''-'' \<or> c = CHR ''.''"

lemma sanitize_runes_chars: "list_all (\<lambda>c. id_char c \<or> c = CHR ''_'') (sanitize_runes s)"
proof (induction s rule: sanitize_runes.induct)
  case (1 s)
  show ?case
  proof (cases s)
    case (Cons c t)
    with 1 show ?thesis by (subst sanitize_runes.simps) auto
  qed (simp add: sanitize_runes.simps)
qed

lemma hex_digit_id_char: "d < 16 \<Longrightarrow> id_char (hex_digit d)"
  by (simp add: id_char_def hex_digit_def Let_def)

lemma cacheFileName_chars: "\<forall>c \<in> set (cacheFileName source). cache_char c"
proof -
  have "id_char c \<or> c = CHR ''_''" if "c \<in> set (sanitizeID raw)" for c raw
    using that sanitize_runes_chars by (auto simp: sanitizeID_def Let_def list_all_iff split: if_splits)
  moreover have "id_char c" if "c \<in> set (EncodeToString bs)" for c bs
    using set_EncodeToString [OF that] hex_digit_id_char by blast
  ultimately show ?thesis
    unfolding cacheFileName_def Let_def by (auto simp: cache_char_def id_char_def)
qed

lemma cache_char_not_slash: "\<not> cache_char slash"
  by (simp add: cache_char_def id_char_def slash_def Let_def)

lemma cacheFileName_elem:
  "slash \<notin> set (cacheFileName s)" "cacheFileName s \<noteq> []" "cacheFileName s \<noteq> ''.''" "cacheFileName s \<noteq> ''..''"
proof -
  show "slash \<notin> set (cacheFileName s)" using cacheFileName_chars cache_char_not_slash by blast
  have "length (cacheFileName s) > 2" by (simp add: cacheFileName_def Let_def)
  then show "cacheFileName s \<noteq> []" "cacheFileName s \<noteq> ''.''" "cacheFileName s \<noteq> ''..''" by auto
qed

lemma Clean_append_elem:
  assumes "dir \<noteq> []" "slash \<notin> set e" "e \<noteq> []" "e \<noteq> ''.''" "e \<noteq> ''..''"
  shows "Clean (dir @ slash # e) = render_path (is_rooted dir) (clean_elems (is_rooted dir) dir @ [e])"
proof -
  have "is_rooted (dir @ slash # e) = is_rooted dir"
    using assms(1) by (cases dir) (auto simp: is_rooted_def HasPrefix_def)
  moreover have "Split (dir @ slash # e) slash = Split dir slash @ [e]"
    using assms(2) by (simp add: Split_append_sep Split_no_sep)
  ultimately show ?thesis
    using assms(3-5) by (simp add: Clean_def clean_elems_def clean_elem_def)
qed


text \<open>
  C29: The file that caches a list lies directly in the cache directory, whatever the
  configured identifier of the source is: its name consists of lower-case letters, digits,
  underscores, hyphens and dots, and joining it to the directory adds it as one element.
\<close>

theorem cache_path_inside_dir:
  assumes "dir \<noteq> []"
  shows "cache_path dir source =
      render_path (is_rooted dir) (clean_elems (is_rooted dir) dir @ [cacheFileName source]) \<and>
    (\<forall>c \<in> set (cacheFileName source). cache_char c) \<and> cacheFileName source \<noteq> ''..''"
proof -
  have "PathJoin [dir, cacheFileName source] = Clean (dir @ slash # cacheFileName source)"
    using assms by (simp add: PathJoin_def)
  then show ?thesis
    using Clean_append_elem [OF assms cacheFileName_elem] cacheFileName_chars cacheFileName_elem
    by (simp add: cache_path_def)
qed

theorem cache_path_inside_dir_witness:
  "cache_path ''/var/cache/resolvit'' \<lparr>SourceID = ''../../ETC/x'', Location = ''http://l'', SourceEnabled = True,
     Auth = \<lparr>Username = [], Password = [], Token = [], AuthHeader = [], Scheme = []\<rparr>\<rparr> =
   ''/var/cache/resolvit/______etc_x.txt''"
proof -
  let ?s = "\<lparr>SourceID = ''../../ETC/x'', Location = ''http://l'', SourceEnabled = True,
     Auth = \<lparr>Username = [], Password = [], Token = [], AuthHeader = [], Scheme = []\<rparr>\<rparr>"
  have "cacheFileName ?s = ''______etc_x.txt''" by code_simp
  moreover have "render_path (is_rooted ''/var/cache/resolvit'')
      (clean_elems (is_rooted ''/var/cache/resolvit'') ''/var/cache/resolvit'' @ [''______etc_x.txt'']) =
      ''/var/cache/resolvit/______etc_x.txt''"
    by code_simp
  ultimately show ?thesis using cache_path_inside_dir [of "''/var/cache/resolvit''" ?s] by simp
qed

section \<open>Working without the network\<close>

text \<open>
  What is relied on of the file system and the HTTP client: a file that was written is read back,
  and a request changes no file.
\<close>

definition files_ok :: "'n osenv \<Rightarrow> bool" where
  "files_ok S \<longleftrightarrow>
     (\<forall>p d n n'. WriteFile S p d n = (None, n') \<longrightarrow> ReadFile S p n' = Inr d) \<and>
     (\<forall>req n res n' p. HttpDo S req n = (res, n') \<longrightarrow> ReadFile S p n' = ReadFile S p n)"

lemma download_files: "files_ok S \<Longrightarrow> download S source n = (res, n') \<Longrightarrow> ReadFile S p n' = ReadFile S p n"
  unfolding download_def files_ok_def by (auto split: option.splits prod.splits sum.splits if_splits)

lemma loadSource_downloaded:
  assumes "isURL (Location source)" "download S source n = (Inr data, n')"
    "parseList L (bytes_reader data) \<lparr>ListID = SourceID source, ErrorLimit = limit\<rparr> = (Inr d, plogs)"
    "dir \<noteq> []" "WriteFile S (cache_path dir source) data n' = (None, n'')"
  shows "loadSource L S limit dir source n = (Inr d, map ParserLog plogs, n'')"
  using assms by (simp add: loadSource_def readSource_def writeCache_def)

text \<open>
  C28: A list that was downloaded and stored once stays available: when a later download fails and the
  stored file was not changed in between, the source yields the same domain set, with a
  warning that names the failure.
\<close>

theorem cached_list_survives_outage:
  assumes "files_ok S" and "isURL (Location source)" and "dir \<noteq> []"
    and "download S source n = (Inr data, n1)"
    and "parseList L (bytes_reader data) \<lparr>ListID = SourceID source, ErrorLimit = limit\<rparr> = (Inr d, plogs)"
    and "WriteFile S (cache_path dir source) data n1 = (None, n2)"
    and "ReadFile S (cache_path dir source) n3 = ReadFile S (cache_path dir source) n2"
    and "download S source n3 = (Inl err, n4)"
  shows "loadSource L S limit dir source n = (Inr d, map ParserLog plogs, n2) \<and>
    loadSource L S limit dir source n3 = (Inr d, UsingCached (SourceID source) err # map ParserLog plogs, n4)"
proof
  show "loadSource L S limit dir source n = (Inr d, map ParserLog plogs, n2)"
    using assms(2-6) by (intro loadSource_downloaded)
  have "ReadFile S (cache_path dir source) n4 = Inr data"
    using assms(1,6,7) download_files [OF assms(1,8)] by (simp add: files_ok_def)
  then show "loadSource L S limit dir source n3 = (Inr d, UsingCached (SourceID source) err # map ParserLog plogs, n4)"
    using assms(2,3,5,8) by (simp add: loadSource_def readSource_def readCache_def)
qed

text \<open>
  An outside world for concrete runs: the files, and whether the network is up. The web serves
  the pages of a fixed map.
\<close>

definition sample_os :: "(string \<rightharpoonup> string) \<Rightarrow> ((string \<rightharpoonup> string) \<times> bool) osenv" where
  "sample_os web = \<lparr>
     MkdirAll = (\<lambda>d n. (None, n)),
     ReadFile = (\<lambda>p n. case fst n p of None \<Rightarrow> Inl ''no such file'' | Some d \<Rightarrow> Inr d),
     WriteFile = (\<lambda>p d n. (None, ((fst n)(p \<mapsto> d), snd n))),
     OpenFile = (\<lambda>p n. case fst n p of None \<Rightarrow> Inl ''no such file'' | Some d \<Rightarrow> Inr (bytes_reader d)),
     NewRequest = (\<lambda>u. None),
     HttpDo = (\<lambda>req n. if \<not> snd n then (Inl ''no route to host'', n)
        else (case web (reqURL req) of
            None \<Rightarrow> (Inr \<lparr>StatusCode = 404, Body = bytes_reader []\<rparr>, n)
          | Some d \<Rightarrow> (Inr \<lparr>StatusCode = 200, Body = bytes_reader d\<rparr>, n)))\<rparr>"

lemma sample_os_files_ok: "files_ok (sample_os web)"
  by (auto simp: files_ok_def sample_os_def split: if_splits option.splits)

definition sample_source :: Source where
  "sample_source = \<lparr>SourceID = ''ads'', Location = ''http://lists/ads'', SourceEnabled = True,
     Auth = \<lparr>Username = [], Password = [], Token = [], AuthHeader = [], Scheme = []\<rparr>\<rparr>"

lemma sample_download:
  "download (sample_os [''http://lists/ads'' \<mapsto> d]) sample_source (fs, True) = (Inr d, (fs, True))"
  "download (sample_os [''http://lists/ads'' \<mapsto> d]) sample_source (fs, False) = (Inl ''no route to host'', (fs, False))"
  by (simp_all add: download_def sample_os_def sample_source_def applyAuth_def ReadAll_def bytes_reader_def)

lemma sample_source_url: "isURL (Location sample_source)"
  by (simp add: isURL_def sample_source_def HasPrefix_def)

theorem cached_list_survives_outage_witness:
  "\<exists>d logs. loadSource sample_lib (sample_os [''http://lists/ads'' \<mapsto> rd_data sample_list]) 0 ''/c'' sample_source
      ([cache_path ''/c'' sample_source \<mapsto> rd_data sample_list], False) = (Inr d, logs)"
proof -
  let ?S = "sample_os [''http://lists/ads'' \<mapsto> rd_data sample_list]" and ?p = "cache_path ''/c'' sample_source"
  have "bytes_reader (rd_data sample_list) = sample_list" by (simp add: bytes_reader_def sample_list_def)
  then obtain d plogs where
    d: "parseList sample_lib (bytes_reader (rd_data sample_list)) \<lparr>ListID = SourceID sample_source, ErrorLimit = 0\<rparr> = (Inr d, plogs)"
    by (auto simp: parseList_def Let_def sample_list_scan)
  have "WriteFile ?S ?p (rd_data sample_list) (Map.empty, True) = (None, ([?p \<mapsto> rd_data sample_list], True))"
    by (simp add: sample_os_def)
  moreover have "ReadFile ?S ?p ([?p \<mapsto> rd_data sample_list], False) = ReadFile ?S ?p ([?p \<mapsto> rd_data sample_list], True)"
    by (simp add: sample_os_def)
  ultimately show ?thesis
    using cached_list_survives_outage [OF sample_os_files_ok sample_source_url _ sample_download(1) d _ _ sample_download(2)]
    by blast
qed

end
