(* ===== verification/FilterRefresh.thy ===== *)
theory FilterRefresh
  imports Loader
begin

text \<open>
  The life cycle of the filter in \<^verbatim>\<open>pkg/filtering/filter.go\<close> (\<^verbatim>\<open>LoadOnce\<close>, \<^verbatim>\<open>Start\<close>) and the list
  manager of \<^verbatim>\<open>manager.go\<close>: a load replaces the two lists of the filter; \<^verbatim>\<open>Start\<close> does the first
  load and says whether a ticker repeats it.
\<close>

section \<open>Operations\<close>

datatype refresh_log =
    BlocklistsFailed goerror
  | AllowlistFailed goerror
  | LoaderLog loader_log
  | AllowlistLog parse_log

definition Filter_LoadOnce :: "dnslib \<Rightarrow> 'n osenv \<Rightarrow> Filter \<Rightarrow> 'n \<Rightarrow> Filter \<times> refresh_log list \<times> 'n" where
  "Filter_LoadOnce L S f n =
     (if \<not> enabled f then (f, [], n)
      else
        (case LoadSources L S (sources f) (cacheDir f) (errorLimit f) n of
           (res, logs, n') \<Rightarrow>
             let (bl, l1) = (case res of Inl err \<Rightarrow> (NewDomainSet, [BlocklistsFailed err]) | Inr d \<Rightarrow> (d, []));
                 (res2, alogs) = LoadAllowlist L S (allowlistPath f) (errorLimit f) n';
                 (al, l2) = (case res2 of Inl err \<Rightarrow> (NewDomainSet, [AllowlistFailed err]) | Inr d \<Rightarrow> (d, []))
             in (f\<lparr>blocklist := Some bl, allowlist := Some al\<rparr>,
                 map LoaderLog logs @ l1 @ map AllowlistLog alogs @ l2, n')))"

text \<open>The filter after the first load and whether the refresh loop was started.\<close>

definition Filter_Start :: "dnslib \<Rightarrow> 'n osenv \<Rightarrow> Filter \<Rightarrow> 'n \<Rightarrow> (Filter \<times> bool) \<times> refresh_log list \<times> 'n" where
  "Filter_Start L S f n =
     (if \<not> enabled f then ((f, False), [], n)
      else
        (case Filter_LoadOnce L S f n of
           (f', logs, n') \<Rightarrow> ((f', updateInterval f' > 0), logs, n')))"

record Manager =
  m_sources :: "Source list"
  m_cacheDir :: string
  m_updateInterval :: int
  m_errorLimit :: int
  m_current :: "DomainSet option"

definition NewManager :: "Source list \<Rightarrow> string \<Rightarrow> int \<Rightarrow> int \<Rightarrow> Manager" where
  "NewManager srcs dir interval limit =
     \<lparr>m_sources = srcs, m_cacheDir = dir, m_updateInterval = interval, m_errorLimit = limit,
      m_current = Some NewDomainSet\<rparr>"

definition Manager_LoadOnce :: "dnslib \<Rightarrow> 'n osenv \<Rightarrow> Manager \<Rightarrow> 'n \<Rightarrow> goerror option \<times> Manager \<times> loader_log list \<times> 'n" where
  "Manager_LoadOnce L S m n =
     (case LoadSources L S (m_sources m) (m_cacheDir m) (m_errorLimit m) n of
        (Inl err, logs, n') \<Rightarrow> (Some err, m, logs, n')
      | (Inr d, logs, n') \<Rightarrow> (None, m\<lparr>m_current := Some d\<rparr>, logs, n'))"

text \<open>
  What the refresh loop of a manager meets: a tick, in the state the world then has, or the end of its
  context. A failed load is logged and the loop goes on.
\<close>

datatype 'n manager_event = CtxDone | Tick 'n

datatype manager_log = RefreshFailed goerror | ManagerLog loader_log

fun manager_loop :: "dnslib \<Rightarrow> 'n osenv \<Rightarrow> 'n manager_event list \<Rightarrow> Manager \<Rightarrow> Manager \<times> manager_log list" where
  "manager_loop L S [] m = (m, [])"
| "manager_loop L S (CtxDone # rest) m = (m, [])"
| "manager_loop L S (Tick n # rest) m =
     (case Manager_LoadOnce L S m n of
        (err, m', logs, n') \<Rightarrow>
          (case manager_loop L S rest m' of
             (m'', logs') \<Rightarrow>
               (m'', map ManagerLog logs @ (case err of Some e \<Rightarrow> [RefreshFailed e] | None \<Rightarrow> []) @ logs')))"

definition Manager_Start :: "dnslib \<Rightarrow> 'n osenv \<Rightarrow> Manager \<Rightarrow> 'n manager_event list \<Rightarrow> Manager \<times> manager_log list" where
  "Manager_Start L S m events = (if m_updateInterval m \<le> 0 then (m, []) else manager_loop L S events m)"

definition Manager_Current :: "Manager \<Rightarrow> DomainSet" where
  "Manager_Current m = (case m_current m of Some d \<Rightarrow> d | None \<Rightarrow> NewDomainSet)"

section \<open>The decision after a load\<close>

text \<open>The results of the sources, and the allow list, of a load in the world \<open>n\<close>.\<close>

definition refresh_results :: "dnslib \<Rightarrow> 'n osenv \<Rightarrow> Filter \<Rightarrow> 'n \<Rightarrow> (Source \<times> (goerror + DomainSet)) list" where
  "refresh_results L S f n =
     load_results L S (errorLimit f) (fst (EnsureCacheDir S (cacheDir f) n)) (sources f)
       (snd (snd (EnsureCacheDir S (cacheDir f) n)))"

definition refresh_allowlist :: "dnslib \<Rightarrow> 'n osenv \<Rightarrow> Filter \<Rightarrow> 'n \<Rightarrow> DomainSet" where
  "refresh_allowlist L S f n =
     (case fst (LoadAllowlist L S (allowlistPath f) (errorLimit f)
         (snd (snd (LoadSources L S (sources f) (cacheDir f) (errorLimit f) n)))) of
        Inl _ \<Rightarrow> NewDomainSet | Inr d \<Rightarrow> d)"

lemma Filter_LoadOnce_lists:
  assumes "enabled f"
  shows "\<exists>logs n'. Filter_LoadOnce L S f n =
    (f\<lparr>blocklist := Some (merge_all NewDomainSet (loaded_sets (refresh_results L S f n))),
       allowlist := Some (refresh_allowlist L S f n)\<rparr>, logs, n')"
proof -
  obtain logs n' where "LoadSources L S (sources f) (cacheDir f) (errorLimit f) n =
      (Inr (merge_all NewDomainSet (loaded_sets (refresh_results L S f n))), logs, n')"
    using LoadSources_eq [of L S "sources f" "cacheDir f" "errorLimit f" n] unfolding refresh_results_def by blast
  then show ?thesis
    using assms by (auto simp: Filter_LoadOnce_def refresh_allowlist_def split: prod.splits sum.splits)
qed

lemma refresh_results_matches:
  "Matches (Some (merge_all NewDomainSet (loaded_sets rs))) name sub \<longleftrightarrow>
     (\<exists>s d. (s, Inr d) \<in> set rs \<and> Matches (Some d) name sub)"
  unfolding domains.matches_merge_all_empty Bex_def set_loaded_sets by blast

lemma ShouldBlock_LoadOnce:
  assumes "enabled f"
  shows "ShouldBlock (Some (fst (Filter_LoadOnce L S f n))) name \<longleftrightarrow>
    (\<exists>s d. (s, Inr d) \<in> set (refresh_results L S f n) \<and> Matches (Some d) name (blockSubdomains f)) \<and>
    \<not> Matches (Some (refresh_allowlist L S f n)) name (blockSubdomains f)"
proof -
  obtain logs n' where "Filter_LoadOnce L S f n =
    (f\<lparr>blocklist := Some (merge_all NewDomainSet (loaded_sets (refresh_results L S f n))),
       allowlist := Some (refresh_allowlist L S f n)\<rparr>, logs, n')"
    using Filter_LoadOnce_lists [OF assms, of L S n] by blast
  then show ?thesis
    using assms by (simp add: ShouldBlock_def currentBlocklist_def currentAllowlist_def refresh_results_matches)
qed

text \<open>
  C25: The decision after a load: an enabled filter blocks a name exactly when the list of an enabled
  source that loaded matches it and the allow list just read does not. What the lists were
  before plays no part.
\<close>

theorem Filter_LoadOnce_decision:
  assumes "enabled f"
  shows "ShouldBlock (Some (fst (Filter_LoadOnce L S f n))) name \<longleftrightarrow>
    (\<exists>s d. (s, Inr d) \<in> set (refresh_results L S f n) \<and> Matches (Some d) name (blockSubdomains f)) \<and>
    \<not> Matches (Some (refresh_allowlist L S f n)) name (blockSubdomains f)"
  using assms by (rule ShouldBlock_LoadOnce)

definition refresh_filter :: Filter where
  "refresh_filter = (NewFilter (\<lambda>p. Inr [])
     \<lparr>optEnabled = True, optBlockSubdomains = False, optAllowlistPath = [], optSources = [sample_source],
      optCacheDir = ''/c'', optUpdateInterval = 0, optBlockedLogPath = [], optErrorLimit = 0\<rparr>)
     \<lparr>blocklist := Some \<lparr>Exact = {''ads.example''}, Wildcards = {}\<rparr>\<rparr>"

lemma refresh_filter_simps [simp]:
  "enabled refresh_filter" "sources refresh_filter = [sample_source]" "cacheDir refresh_filter = ''/c''"
  "allowlistPath refresh_filter = []" "errorLimit refresh_filter = 0" "\<not> blockSubdomains refresh_filter"
  by (simp_all add: refresh_filter_def NewFilter_def)

lemma sample_EnsureCacheDir: "EnsureCacheDir (sample_os web) ''/c'' n = (''/c'', [], n)"
  by (simp add: EnsureCacheDir_def sample_os_def)

lemma sample_load_online:
  obtains d where "Matches (Some d) ''ads.example'' False"
    "refresh_results sample_lib (sample_os [''http://lists/ads'' \<mapsto> rd_data sample_list]) refresh_filter (fs, True) =
       [(sample_source, Inr d)]"
proof -
  let ?S = "sample_os [''http://lists/ads'' \<mapsto> rd_data sample_list]"
  have r: "bytes_reader (rd_data sample_list) = sample_list" by (simp add: bytes_reader_def sample_list_def)
  obtain d plogs where
    d: "parseList sample_lib (bytes_reader (rd_data sample_list)) \<lparr>ListID = SourceID sample_source, ErrorLimit = 0\<rparr> = (Inr d, plogs)"
    unfolding r by (auto simp: parseList_def Let_def sample_list_scan)
  have "normalizeLookupName ''ads.example'' = ''ads.example''" by code_simp
  then have "Matches (Some d) ''ads.example'' False"
    using parseList_entry [OF d, of "''ads.example''" False] unfolding r
    by (simp add: list_entries_def sample_list_scan sample_list_entries sample_entry_accepted Matches_iff)
  moreover have "\<exists>n'. WriteFile ?S (cache_path ''/c'' sample_source) (rd_data sample_list) (fs, True) = (None, n')"
    by (auto simp: sample_os_def)
  then have "\<exists>n'. loadSource sample_lib ?S 0 ''/c'' sample_source (fs, True) = (Inr d, map ParserLog plogs, n')"
    using loadSource_downloaded [OF sample_source_url sample_download(1) d] by blast
  then have "refresh_results sample_lib ?S refresh_filter (fs, True) = [(sample_source, Inr d)]"
    by (auto simp: refresh_results_def sample_EnsureCacheDir sample_source_def)
  ultimately show thesis by (rule that)
qed

theorem Filter_LoadOnce_decision_witness:
  "ShouldBlock (Some (fst (Filter_LoadOnce sample_lib (sample_os [''http://lists/ads'' \<mapsto> rd_data sample_list])
     refresh_filter (Map.empty, True)))) ''ads.example''"
proof -
  obtain d where d: "Matches (Some d) ''ads.example'' False"
    "refresh_results sample_lib (sample_os [''http://lists/ads'' \<mapsto> rd_data sample_list]) refresh_filter (Map.empty, True) =
       [(sample_source, Inr d)]"
    by (rule sample_load_online)
  then show ?thesis
    by (subst Filter_LoadOnce_decision) (simp_all add: refresh_allowlist_def LoadAllowlist_def domains.matches_empty)
qed

text \<open>
  C26: A refresh in which no source can be loaded leaves an empty block list: the names that were
  blocked before are no longer blocked.
\<close>

theorem failed_refresh_unblocks:
  assumes "enabled f" and "\<forall>(s, res) \<in> set (refresh_results L S f n). \<exists>err. res = Inl err"
  shows "\<not> ShouldBlock (Some (fst (Filter_LoadOnce L S f n))) name"
proof -
  have "d \<notin> set (loaded_sets (refresh_results L S f n))" for d
    using assms(2) by (auto simp: set_loaded_sets)
  then have "loaded_sets (refresh_results L S f n) = []" by (metis last_in_set)
  then show ?thesis
    using Filter_LoadOnce_lists [OF assms(1), of L S n] assms(1)
    by (auto simp: ShouldBlock_def currentBlocklist_def currentAllowlist_def domains.matches_empty)
qed

theorem failed_refresh_unblocks_witness:
  "ShouldBlock (Some refresh_filter) ''ads.example'' \<and>
   \<not> ShouldBlock (Some (fst (Filter_LoadOnce sample_lib (sample_os Map.empty) refresh_filter (Map.empty, True)))) ''ads.example''"
proof
  have "normalizeLookupName ''ads.example'' = ''ads.example''" by code_simp
  then show "ShouldBlock (Some refresh_filter) ''ads.example''"
    by (simp add: ShouldBlock_def refresh_filter_def NewFilter_def currentBlocklist_def currentAllowlist_def
        Matches_iff NewDomainSet_def)
  have "\<exists>err n'. loadSource sample_lib (sample_os Map.empty) 0 ''/c'' sample_source (Map.empty, True) = (Inl err, [], n')"
    using sample_source_url
    by (auto simp: loadSource_def readSource_def readCache_def download_def sample_os_def)
  then have "\<forall>(s, res) \<in> set (refresh_results sample_lib (sample_os Map.empty) refresh_filter (Map.empty, True)).
      \<exists>err. res = Inl err"
    by (auto simp: refresh_results_def sample_EnsureCacheDir)
  then show "\<not> ShouldBlock (Some (fst (Filter_LoadOnce sample_lib (sample_os Map.empty) refresh_filter (Map.empty, True)))) ''ads.example''"
    by (intro failed_refresh_unblocks) simp_all
qed

lemma Filter_LoadOnce_frame:
  "enabled (fst (Filter_LoadOnce L S f n)) = enabled f"
  "blockSubdomains (fst (Filter_LoadOnce L S f n)) = blockSubdomains f"
  "blocked_logger (fst (Filter_LoadOnce L S f n)) = blocked_logger f"
  by (auto simp: Filter_LoadOnce_def Let_def split: prod.splits sum.splits)

section \<open>The list manager\<close>

definition manager_results :: "dnslib \<Rightarrow> 'n osenv \<Rightarrow> Manager \<Rightarrow> 'n \<Rightarrow> (Source \<times> (goerror + DomainSet)) list" where
  "manager_results L S m n =
     load_results L S (m_errorLimit m) (fst (EnsureCacheDir S (m_cacheDir m) n)) (m_sources m)
       (snd (snd (EnsureCacheDir S (m_cacheDir m) n)))"

lemma Manager_LoadOnce_eq:
  "\<exists>logs n'. Manager_LoadOnce L S m n =
    (None, m\<lparr>m_current := Some (merge_all NewDomainSet (loaded_sets (manager_results L S m n)))\<rparr>, logs, n')"
  using LoadSources_eq [of L S "m_sources m" "m_cacheDir m" "m_errorLimit m" n]
  by (auto simp: Manager_LoadOnce_def manager_results_def)

lemma manager_results_current [simp]: "manager_results L S (m\<lparr>m_current := c\<rparr>) n = manager_results L S m n"
  by (simp add: manager_results_def)

lemma manager_loop_latest:
  "\<exists>logs. manager_loop L S (map Tick (ns @ [n]) @ CtxDone # rest) m =
    (m\<lparr>m_current := Some (merge_all NewDomainSet (loaded_sets (manager_results L S m n)))\<rparr>, logs) \<and>
    (\<forall>e. RefreshFailed e \<notin> set logs)"
proof (induction ns arbitrary: m)
  case Nil
  show ?case using Manager_LoadOnce_eq [of L S m n] by auto
next
  case (Cons k ns)
  obtain logs n' where "Manager_LoadOnce L S m k =
      (None, m\<lparr>m_current := Some (merge_all NewDomainSet (loaded_sets (manager_results L S m k)))\<rparr>, logs, n')"
    using Manager_LoadOnce_eq [of L S m k] by blast
  with Cons [of "m\<lparr>m_current := Some (merge_all NewDomainSet (loaded_sets (manager_results L S m k)))\<rparr>"]
  show ?case by auto
qed

text \<open>
  C27: A manager whose loop has met some ticks before its context ended holds the lists of the last of
  them: its current set matches a name exactly when the list of an enabled source that loaded at that tick
  does, and no refresh was reported as failed, whatever went wrong with single sources.
\<close>

theorem Manager_Start_latest:
  assumes "m_updateInterval m > 0"
  shows "\<exists>m' logs. Manager_Start L S m (map Tick (ns @ [n]) @ CtxDone # rest) = (m', logs) \<and>
    (\<forall>e. RefreshFailed e \<notin> set logs) \<and>
    (\<forall>name sub. Matches (Some (Manager_Current m')) name sub \<longleftrightarrow>
      (\<exists>s d. (s, Inr d) \<in> set (manager_results L S m n) \<and> Matches (Some d) name sub))"
proof -
  obtain logs where "manager_loop L S (map Tick (ns @ [n]) @ CtxDone # rest) m =
    (m\<lparr>m_current := Some (merge_all NewDomainSet (loaded_sets (manager_results L S m n)))\<rparr>, logs)"
    "\<forall>e. RefreshFailed e \<notin> set logs"
    using manager_loop_latest [of L S ns n rest m] by blast
  then show ?thesis using assms by (simp add: Manager_Start_def Manager_Current_def refresh_results_matches)
qed

theorem Manager_Start_latest_witness:
  "\<exists>m'. fst (Manager_Start sample_lib (sample_os [''http://lists/ads'' \<mapsto> rd_data sample_list])
       (NewManager [sample_source] ''/c'' 60 0) [Tick (Map.empty, False), Tick (Map.empty, True), CtxDone]) = m' \<and>
     Matches (Some (Manager_Current m')) ''ads.example'' False"
proof -
  let ?S = "sample_os [''http://lists/ads'' \<mapsto> rd_data sample_list]" and ?m = "NewManager [sample_source] ''/c'' 60 0"
  obtain d where "Matches (Some d) ''ads.example'' False" "refresh_results sample_lib ?S refresh_filter (Map.empty, True) = [(sample_source, Inr d)]"
    by (rule sample_load_online)
  then have "\<exists>s d. (s, Inr d) \<in> set (manager_results sample_lib ?S ?m (Map.empty, True)) \<and> Matches (Some d) ''ads.example'' False"
    by (auto simp: manager_results_def refresh_results_def NewManager_def)
  moreover have "m_updateInterval ?m > 0" by (simp add: NewManager_def)
  ultimately show ?thesis
    using Manager_Start_latest [of ?m sample_lib ?S "[(Map.empty, False)]" "(Map.empty, True)" "[]"] by fastforce
qed

end
