(* ===== verification/Sources.thy ===== *)
theory Sources
  imports Loader
begin

text \<open>
  \<^verbatim>\<open>pkg/filtering/catalog.go\<close>, \<^verbatim>\<open>sources.go\<close> and \<^verbatim>\<open>ListConfig\<close> of \<^verbatim>\<open>types.go\<close>: the built-in lists and
  how the configuration selects the sources to load. A Go map that is iterated over is the list
  of its entries in the order of the iteration, which the language leaves open.
\<close>

section \<open>Data\<close>

record ListDefinition =
  DefID :: string
  DefName :: string
  DefURL :: string
  Category :: string
  Description :: string
  Paid :: bool

record ListConfig =
  cfgEnabled :: bool
  cfgURL :: string
  cfgUsername :: string
  cfgPassword :: string
  cfgToken :: string
  cfgHeader :: string
  cfgScheme :: string

definition catalog_entries :: "(string \<times> ListDefinition) list" where
  "catalog_entries =
    [
     (''blocklistproject_malware'',
      \<lparr>DefID = ''blocklistproject_malware'', DefName = ''Block List Project - Malware'',
       DefURL = ''https://blocklistproject.github.io/Lists/malware.txt'',
       Category = ''malware'', Description = ''Hosts associated with malware distribution.'', Paid = False\<rparr>),
     (''blocklistproject_phishing'',
      \<lparr>DefID = ''blocklistproject_phishing'', DefName = ''Block List Project - Phishing'',
       DefURL = ''https://blocklistproject.github.io/Lists/phishing.txt'',
       Category = ''phishing'', Description = ''Hosts associated with phishing campaigns.'', Paid = False\<rparr>),
     (''blocklistproject_scam'',
      \<lparr>DefID = ''blocklistproject_scam'', DefName = ''Block List Project - Scam'',
       DefURL = ''https://blocklistproject.github.io/Lists/scam.txt'',
       Category = ''scam'', Description = ''Hosts associated with scam activity.'', Paid = False\<rparr>),
     (''blocklistproject_porn'',
      \<lparr>DefID = ''blocklistproject_porn'', DefName = ''Block List Project - Porn'',
       DefURL = ''https://blocklistproject.github.io/Lists/porn.txt'',
       Category = ''porn'', Description = ''Hosts associated with adult content.'', Paid = False\<rparr>),
     (''blocklistproject_ads'',
      \<lparr>DefID = ''blocklistproject_ads'', DefName = ''Block List Project - Ads'',
       DefURL = ''https://blocklistproject.github.io/Lists/ads.txt'',
       Category = ''ads'', Description = ''Advertising and tracking hosts.'', Paid = False\<rparr>),
     (''stevenblack_adult'',
      \<lparr>DefID = ''stevenblack_adult'', DefName = ''StevenBlack - Porn Only'',
       DefURL = ''https://raw.githubusercontent.com/StevenBlack/hosts/master/alternates/porn-only/hosts'',
       Category = ''porn'', Description = ''Adult content list without ad/tracker blocking.'', Paid = False\<rparr>),
     (''oisd_basic'',
      \<lparr>DefID = ''oisd_basic'', DefName = ''OISD Basic'',
       DefURL = ''https://big.oisd.nl/'',
       Category = ''ads'', Description = ''Ad and tracker blocking list.'', Paid = False\<rparr>),
     (''adguard_dns'',
      \<lparr>DefID = ''adguard_dns'', DefName = ''AdGuard DNS Filter'',
       DefURL = ''https://adguardteam.github.io/AdGuardSDNSFilter/Filters/filter.txt'',
       Category = ''ads'', Description = ''Ad and tracker blocking list.'', Paid = False\<rparr>),
     (''spamhaus_dbl'',
      \<lparr>DefID = ''spamhaus_dbl'', DefName = ''Spamhaus DBL'',
       DefURL = ''https://www.spamhaus.org/blocklists/domain-blocklist/'',
       Category = ''malware'', Description = ''Paid domain blocklist from Spamhaus.'', Paid = True\<rparr>),
     (''surbl'',
      \<lparr>DefID = ''surbl'', DefName = ''SURBL'',
       DefURL = ''https://www.surbl.org/'',
       Category = ''malware'', Description = ''Paid URL blocklist from SURBL.'', Paid = True\<rparr>)]"

definition Catalog :: "string \<rightharpoonup> ListDefinition" where
  "Catalog = map_of catalog_entries"

section \<open>Operations\<close>

definition no_auth :: AuthConfig where
  "no_auth = \<lparr>Username = [], Password = [], Token = [], AuthHeader = [], Scheme = []\<rparr>"

definition config_location :: "(string \<rightharpoonup> ListDefinition) \<Rightarrow> string \<Rightarrow> ListConfig \<Rightarrow> string" where
  "config_location catalog cid cfg =
     (if cfgURL cfg = [] then (case catalog cid of Some d \<Rightarrow> DefURL d | None \<Rightarrow> []) else cfgURL cfg)"

definition config_source :: "(string \<rightharpoonup> ListDefinition) \<Rightarrow> string \<times> ListConfig \<Rightarrow> Source list" where
  "config_source catalog entry =
     (case entry of (cid, cfg) \<Rightarrow>
        if \<not> cfgEnabled cfg then []
        else
          let location = config_location catalog cid cfg in
          if location = [] then []
          else [\<lparr>SourceID = cid, Location = location, SourceEnabled = True,
                 Auth = \<lparr>Username = cfgUsername cfg, Password = cfgPassword cfg, Token = cfgToken cfg,
                         AuthHeader = cfgHeader cfg, Scheme = cfgScheme cfg\<rparr>\<rparr>])"

fun custom_sources :: "nat \<Rightarrow> string list \<Rightarrow> Source list" where
  "custom_sources i [] = []"
| "custom_sources i (entry # rest) =
     (let trimmed = TrimSpace entry in
      if trimmed = [] then custom_sources (Suc i) rest
      else \<lparr>SourceID = ''custom_'' @ Itoa (i + 1), Location = trimmed, SourceEnabled = True, Auth = no_auth\<rparr>
           # custom_sources (Suc i) rest)"

definition BuildSources ::
    "(string \<rightharpoonup> ListDefinition) \<Rightarrow> (string \<times> ListConfig) list \<Rightarrow> string list \<Rightarrow> Source list" where
  "BuildSources catalog configs custom = concat (map (config_source catalog) configs) @ custom_sources 0 custom"

section \<open>What is selected\<close>

lemma custom_sources_set:
  "s \<in> set (custom_sources i custom) \<longleftrightarrow>
    (\<exists>k < length custom. TrimSpace (custom ! k) \<noteq> [] \<and>
       s = \<lparr>SourceID = ''custom_'' @ Itoa (i + k + 1), Location = TrimSpace (custom ! k), SourceEnabled = True, Auth = no_auth\<rparr>)"
proof (induction custom arbitrary: i)
  case (Cons c cs)
  then show ?case
    by (cases "TrimSpace c = []") (simp_all add: Let_def Ex_less_Suc2)
qed simp


lemma config_source_set:
  "s \<in> set (config_source catalog (cid, cfg)) \<longleftrightarrow>
    cfgEnabled cfg \<and> config_location catalog cid cfg \<noteq> [] \<and>
    s = \<lparr>SourceID = cid, Location = config_location catalog cid cfg, SourceEnabled = True,
         Auth = \<lparr>Username = cfgUsername cfg, Password = cfgPassword cfg, Token = cfgToken cfg,
                 AuthHeader = cfgHeader cfg, Scheme = cfgScheme cfg\<rparr>\<rparr>"
  by (simp add: config_source_def Let_def)

text \<open>
  C30: The sources to load are exactly the enabled lists of the configuration that have a location,
  their own or the one of the built-in catalog, with their credentials, and the custom entries
  that are not blank, without credentials. The order of the iteration over the configuration
  does not matter.
\<close>

theorem BuildSources_spec:
  "s \<in> set (BuildSources catalog configs custom) \<longleftrightarrow>
    (\<exists>cid cfg. (cid, cfg) \<in> set configs \<and> cfgEnabled cfg \<and> config_location catalog cid cfg \<noteq> [] \<and>
      s = \<lparr>SourceID = cid, Location = config_location catalog cid cfg, SourceEnabled = True,
           Auth = \<lparr>Username = cfgUsername cfg, Password = cfgPassword cfg, Token = cfgToken cfg,
                   AuthHeader = cfgHeader cfg, Scheme = cfgScheme cfg\<rparr>\<rparr>) \<or>
    (\<exists>k < length custom. TrimSpace (custom ! k) \<noteq> [] \<and>
      s = \<lparr>SourceID = ''custom_'' @ Itoa (k + 1), Location = TrimSpace (custom ! k), SourceEnabled = True,
           Auth = no_auth\<rparr>)"
proof -
  have "s \<in> set (concat (map (config_source catalog) configs)) \<longleftrightarrow>
      (\<exists>cid cfg. (cid, cfg) \<in> set configs \<and> s \<in> set (config_source catalog (cid, cfg)))"
    by force
  then show ?thesis
    unfolding BuildSources_def set_append Un_iff custom_sources_set config_source_set by simp
qed

theorem BuildSources_spec_witness:
  "BuildSources Catalog [(''oisd_basic'', \<lparr>cfgEnabled = True, cfgURL = [], cfgUsername = [], cfgPassword = [],
      cfgToken = [], cfgHeader = [], cfgScheme = []\<rparr>)] [] \<noteq> []"
proof -
  let ?cfg = "\<lparr>cfgEnabled = True, cfgURL = [], cfgUsername = [], cfgPassword = [],
      cfgToken = [], cfgHeader = [], cfgScheme = []\<rparr>"
  let ?s = "\<lparr>SourceID = ''oisd_basic'', Location = ''https://big.oisd.nl/'', SourceEnabled = True, Auth = no_auth\<rparr>"
  have "config_location Catalog ''oisd_basic'' ?cfg = ''https://big.oisd.nl/''"
    by (simp add: config_location_def Catalog_def catalog_entries_def)
  then have "?s \<in> set (BuildSources Catalog [(''oisd_basic'', ?cfg)] [])"
    unfolding BuildSources_spec by (simp add: no_auth_def)
  then show ?thesis by (metis empty_iff list.set(1))
qed

lemma custom_ids: "map SourceID (custom_sources i custom) =
    map (\<lambda>k. ''custom_'' @ Itoa (i + k + 1)) (filter (\<lambda>k. TrimSpace (custom ! k) \<noteq> []) [0..<length custom])"
proof (induction custom arbitrary: i)
  case (Cons c cs)
  have "[0..<length (c # cs)] = 0 # map Suc [0..<length cs]" 
    unfolding map_Suc_upt length_Cons by (rule upt_conv_Cons) simp
  with Cons show ?case by (simp add: Let_def filter_map comp_def)
qed simp

lemma custom_ids_distinct: "distinct (map SourceID (custom_sources i custom))"
  unfolding custom_ids by (auto simp: distinct_map inj_on_def Itoa_inj)

lemma config_ids_distinct:
  "distinct (map fst configs) \<Longrightarrow> distinct (map SourceID (concat (map (config_source catalog) configs)))"
proof (induction configs)
  case (Cons e configs)
  obtain cid cfg where e: "e = (cid, cfg)" by (cases e)
  have "map SourceID (config_source catalog e) = [] \<or> map SourceID (config_source catalog e) = [cid]"
    by (simp add: config_source_def Let_def e)
  moreover have "SourceID s \<in> fst ` set configs" if "s \<in> set (concat (map (config_source catalog) configs))" for s
    using that by (force simp: config_source_set)
  then have "cid \<notin> SourceID ` set (concat (map (config_source catalog) configs))"
    using Cons.prems e by auto
  ultimately show ?case using Cons e by auto
qed simp

text \<open>
  Two sources never share an identifier, by which logs and cache files name them, as long as
  no configured list is named like a custom entry.
\<close>

theorem BuildSources_ids_distinct:
  assumes "distinct (map fst configs)" and "\<forall>(cid, cfg) \<in> set configs. \<not> HasPrefix cid ''custom_''"
  shows "distinct (map SourceID (BuildSources catalog configs custom))"
proof -
  have "SourceID s \<in> fst ` set configs" if "s \<in> set (concat (map (config_source catalog) configs))" for s
    using that by (force simp: config_source_set)
  moreover have "HasPrefix (SourceID s) ''custom_''" if "s \<in> set (custom_sources 0 custom)" for s
    using that by (auto simp: custom_sources_set str_simps)
  ultimately have "SourceID ` set (concat (map (config_source catalog) configs)) \<inter> SourceID ` set (custom_sources 0 custom) = {}"
    using assms(2) by fastforce
  with config_ids_distinct [OF assms(1), of catalog] custom_ids_distinct [of 0 custom] show ?thesis
    unfolding BuildSources_def map_append distinct_append set_map by blast
qed

theorem BuildSources_ids_distinct_witness:
  "distinct (map SourceID (BuildSources Catalog [(''oisd_basic'', \<lparr>cfgEnabled = True, cfgURL = [], cfgUsername = [],
     cfgPassword = [], cfgToken = [], cfgHeader = [], cfgScheme = []\<rparr>)] [''/etc/a'', '' '', ''http://b'']))"
  by (rule BuildSources_ids_distinct) (simp_all add: HasPrefix_def)

text \<open>The identifier alone does not keep the files apart: different identifiers can share a cache file.\<close>

lemma cache_file_collision:
  "cacheFileName \<lparr>SourceID = ''ads.de'', Location = ''http://a'', SourceEnabled = True, Auth = no_auth\<rparr> =
   cacheFileName \<lparr>SourceID = ''ads-de'', Location = ''http://b'', SourceEnabled = True, Auth = no_auth\<rparr>"
  by code_simp

text \<open>Every entry of the catalog is stored under its own identifier and can be downloaded.\<close>

lemma Catalog_wellformed: "Catalog cid = Some d \<Longrightarrow> DefID d = cid \<and> isURL (DefURL d)"
  by (auto simp: Catalog_def catalog_entries_def isURL_def HasPrefix_def split: if_splits)

end
