(* ===== verification/GoDuration.thy ===== *)
theory GoDuration
  imports GoEncoding "HOL-Library.Log_Nat"
begin

text \<open>
  Go's \<^verbatim>\<open>time.ParseDuration\<close>, by which the configuration reads its refresh interval. Unsigned
  64-bit values are integers, with the one sum that can wrap around written out (it does, \<open>duration_wraps\<close>); the fraction of a unit is
  computed in 64-bit floating point, which rounds to 53 significant bits.
\<close>

section \<open>Floating point\<close>

text \<open>A positive number of type \<^verbatim>\<open>float64\<close> is \<open>m * 2 ^ e\<close>, the pair of \<open>m\<close> and \<open>e\<close>.\<close>

type_synonym float64 = "int \<times> int"

definition round_even :: "int \<Rightarrow> int \<Rightarrow> int" where
  "round_even n d =
     (let q = n div d; r = n mod d
      in if 2 * r < d \<or> (2 * r = d \<and> even q) then q else q + 1)"

text \<open>The numerator and denominator of \<open>n / (d * 2 ^ e)\<close>.\<close>

definition scaled :: "int \<Rightarrow> int \<Rightarrow> int \<Rightarrow> int \<times> int" where
  "scaled n d e = (if 0 \<le> e then (n, d * 2 ^ nat e) else (n * 2 ^ nat (- e), d))"

text \<open>The quotient of two positive numbers, rounded to the nearest number of 53 bits.\<close>

definition float_div :: "int \<Rightarrow> int \<Rightarrow> float64" where
  "float_div n d =
     (if n \<le> 0 then (0, 0)
      else
        let e0 = bitlen n - bitlen d - 53;
            e = (case scaled n d e0 of (n', d') \<Rightarrow> if n' div d' < 2 ^ 53 then e0 else e0 + 1)
        in case scaled n d e of (n', d') \<Rightarrow> (round_even n' d', e))"

definition float_mult :: "float64 \<Rightarrow> float64 \<Rightarrow> float64" where
  "float_mult x y = (case float_div (fst x * fst y) 1 of (m, e) \<Rightarrow> (m, e + snd x + snd y))"

definition float_trunc :: "float64 \<Rightarrow> int" where
  "float_trunc x = (case x of (m, e) \<Rightarrow> if 0 \<le> e then m * 2 ^ nat e else m div 2 ^ nat (- e))"

text \<open>\<^verbatim>\<open>uint64(float64(f) * (float64(unit) / scale))\<close>.\<close>

definition frac_part :: "int \<Rightarrow> int \<Rightarrow> int \<Rightarrow> int" where
  "frac_part f unit scale = float_trunc (float_mult (float_div f 1) (float_div unit scale))"

section \<open>Scanning\<close>

definition digit :: "char \<Rightarrow> bool" where
  "digit c \<longleftrightarrow> (48::nat) \<le> of_char c \<and> of_char c \<le> (57::nat)"

definition digit_value :: "char \<Rightarrow> int" where
  "digit_value c = int (of_char c) - 48"

fun leadingInt :: "int \<Rightarrow> string \<Rightarrow> (int \<times> string) option" where
  "leadingInt x [] = Some (x, [])"
| "leadingInt x (c # s) =
     (if \<not> digit c then Some (x, c # s)
      else if x > 2 ^ 63 div 10 then None
      else let y = x * 10 + digit_value c in if y > 2 ^ 63 then None else leadingInt y s)"

fun leadingFraction :: "int \<Rightarrow> int \<Rightarrow> bool \<Rightarrow> string \<Rightarrow> int \<times> int \<times> string" where
  "leadingFraction x scale overflow [] = (x, scale, [])"
| "leadingFraction x scale overflow (c # s) =
     (if \<not> digit c then (x, scale, c # s)
      else if overflow then leadingFraction x scale True s
      else if x > (2 ^ 63 - 1) div 10 then leadingFraction x scale True s
      else
        let y = x * 10 + digit_value c in
        if y > 2 ^ 63 then leadingFraction x scale True s
        else leadingFraction y (scale * 10) False s)"

definition unit_table :: "(string \<times> int) list" where
  "unit_table =
     [(''ns'', 1), (''us'', 1000), ([CHR 0xC2, CHR 0xB5, CHR ''s''], 1000), ([CHR 0xCE, CHR 0xBC, CHR ''s''], 1000),
      (''ms'', 1000000), (''s'', 1000000000), (''m'', 60000000000), (''h'', 3600000000000)]"

definition unitMap :: "string \<rightharpoonup> int" where
  "unitMap = map_of unit_table"

definition unit_char :: "char \<Rightarrow> bool" where
  "unit_char c \<longleftrightarrow> c \<noteq> CHR ''.'' \<and> \<not> digit c"

text \<open>The quoting of the package \<^verbatim>\<open>time\<close>, byte by byte.\<close>

definition quote_byte :: "char \<Rightarrow> string" where
  "quote_byte c =
     (let n = (of_char c :: nat) in
      if n \<ge> 128 \<or> n < 32 then [CHR 0x5C, CHR ''x'', hex_digit (n div 16), hex_digit (n mod 16)]
      else if c = CHR 0x22 \<or> c = CHR 0x5C then [CHR 0x5C, c]
      else [c])"

definition quote :: "string \<Rightarrow> string" where
  "quote s = [CHR 0x22] @ concat (map quote_byte s) @ [CHR 0x22]"

definition invalid_duration :: "string \<Rightarrow> goerror" where
  "invalid_duration orig = ''time: invalid duration '' @ quote orig"

section \<open>Parsing\<close>

lemma leadingInt_length: "leadingInt x s = Some (v, rest) \<Longrightarrow> length rest \<le> length s"
  by (induction x s rule: leadingInt.induct) (auto simp: Let_def split: if_splits)

lemma leadingFraction_length: "leadingFraction x scale ov s = (f, sc, rest) \<Longrightarrow> length rest \<le> length s"
  by (induction x scale ov s rule: leadingFraction.induct) (auto simp: Let_def split: if_splits)

text \<open>The digits after a point, and whether there were any.\<close>

definition fraction :: "string \<Rightarrow> int \<times> int \<times> string \<times> bool" where
  "fraction s =
     (if s \<noteq> [] \<and> hd s = CHR ''.'' then
        (case leadingFraction 0 1 False (tl s) of (f, scale, rest) \<Rightarrow> (f, scale, rest, length rest \<noteq> length (tl s)))
      else (0, 1, s, False))"

lemma fraction_length: "fraction s = (f, scale, rest, post) \<Longrightarrow> length rest \<le> length s"
  by (cases s) (auto simp: fraction_def split: if_splits prod.splits dest!: leadingFraction_length)

lemma unit_shorter: "takeWhile unit_char s \<noteq> [] \<Longrightarrow> length (dropWhile unit_char s) < length s"
  by (metis append_Nil length_append length_greater_0_conv less_add_same_cancel2 takeWhile_dropWhile_id)

function duration_loop :: "string \<Rightarrow> string \<Rightarrow> int \<Rightarrow> goerror + int" where
  "duration_loop orig s d =
     (if s = [] then Inr d
      else if \<not> (hd s = CHR ''.'' \<or> digit (hd s)) then Inl (invalid_duration orig)
      else
        (case leadingInt 0 s of
           None \<Rightarrow> Inl (invalid_duration orig)
         | Some (v, s1) \<Rightarrow>
             (case fraction s1 of
                (f, scale, s2, post) \<Rightarrow>
                  if length s1 = length s \<and> \<not> post then Inl (invalid_duration orig)
                  else if takeWhile unit_char s2 = [] then Inl (''time: missing unit in duration '' @ quote orig)
                  else
                    (case unitMap (takeWhile unit_char s2) of
                       None \<Rightarrow> Inl (''time: unknown unit '' @ quote (takeWhile unit_char s2) @ '' in duration '' @ quote orig)
                     | Some unit \<Rightarrow>
                         if v > 2 ^ 63 div unit then Inl (invalid_duration orig)
                         else
                           let v' = v * unit + (if f > 0 then frac_part f unit scale else 0) in
                           if f > 0 \<and> v' > 2 ^ 63 then Inl (invalid_duration orig)
                           else
                             let d' = (d + v') mod 2 ^ 64 in
                             if d' > 2 ^ 63 then Inl (invalid_duration orig)
                             else duration_loop orig (dropWhile unit_char s2) d'))))"
  by pat_completeness auto
termination
  by (relation "measure (\<lambda>(orig, s, d). length s)") (auto dest!: leadingInt_length fraction_length [OF sym] unit_shorter)

declare duration_loop.simps [simp del]

definition ParseDuration :: "string \<Rightarrow> goerror + int" where
  "ParseDuration orig =
     (let neg = (orig \<noteq> [] \<and> hd orig = CHR ''-'');
          s = (if orig \<noteq> [] \<and> (hd orig = CHR ''-'' \<or> hd orig = CHR ''+'') then tl orig else orig)
      in
      if s = ''0'' then Inr 0
      else if s = [] then Inl (invalid_duration orig)
      else
        (case duration_loop orig s 0 of
           Inl err \<Rightarrow> Inl err
         | Inr d \<Rightarrow>
             if neg then Inr (- d)
             else if d > 2 ^ 63 - 1 then Inl (invalid_duration orig)
             else Inr d))"

section \<open>Durations without fraction\<close>

lemma digit_digit_char: "d < 10 \<Longrightarrow> digit (digit_char d) \<and> digit_value (digit_char d) = int d"
  by (simp add: digit_def digit_value_def of_char_digit_char)

lemma leadingInt_digit:
  assumes "d < 10" "10 * m + d \<le> 2 ^ 63"
  shows "leadingInt (int m) (digit_char d # s) = leadingInt (int (10 * m + d)) s"
proof -
  have "int (10 * m + d) \<le> int (2 ^ 63)" using assms(2) by (simp only: of_nat_le_iff)
  then have "int m * 10 + int d \<le> 2 ^ 63" by (simp add: mult.commute)
  then show ?thesis using digit_digit_char [OF assms(1)] by (simp add: Let_def mult.commute)
qed

lemma leadingInt_Itoa: "n \<le> 2 ^ 63 \<Longrightarrow> leadingInt 0 (Itoa n @ s) = leadingInt (int n) s"
proof (induction n arbitrary: s rule: Itoa.induct)
  case (1 n)
  show ?case
  proof (cases "n < 10")
    case True
    then show ?thesis using leadingInt_digit [of n 0 s] "1.prems" by (simp add: Itoa.simps [of n])
  next
    case False
    have "leadingInt 0 (Itoa (n div 10) @ digit_char (n mod 10) # s) = leadingInt (int (n div 10)) (digit_char (n mod 10) # s)"
      using "1.IH" [OF False] "1.prems" by simp
    also have "\<dots> = leadingInt (int n) s"
      using leadingInt_digit [of "n mod 10" "n div 10" s] "1.prems" by simp
    finally show ?thesis using False by (simp add: Itoa.simps [of n])
  qed
qed

lemma unit_table_names: "unitMap u = Some k \<Longrightarrow> u \<noteq> [] \<and> list_all unit_char u \<and> 0 < k"
  by (auto simp: unitMap_def unit_table_def unit_char_def digit_def split: if_splits)

text \<open>A duration in whole units, one after the other as in \<^verbatim>\<open>1h30m\<close>, and its length.\<close>

definition render_units :: "(nat \<times> string) list \<Rightarrow> string" where
  "render_units us = concat (map (\<lambda>(n, u). Itoa n @ u) us)"

fun units_length :: "(nat \<times> string) list \<Rightarrow> int" where
  "units_length [] = 0"
| "units_length ((n, u) # us) = int n * the (unitMap u) + units_length us"

definition known_units :: "(nat \<times> string) list \<Rightarrow> bool" where
  "known_units us \<longleftrightarrow> (\<forall>(n, u) \<in> set us. unitMap u \<noteq> None)"

lemma units_length_nonneg: "known_units us \<Longrightarrow> 0 \<le> units_length us"
proof (induction us rule: units_length.induct)
  case (2 n u us)
  then obtain k where k: "unitMap u = Some k" by (auto simp: known_units_def)
  have "0 \<le> int n * k" using unit_table_names [OF k] by simp
  moreover have "0 \<le> units_length us" using 2 by (simp add: known_units_def)
  ultimately show ?case by (simp add: k)
qed simp

lemma Itoa_hd_digit: "digit (hd (Itoa n))"
  using set_Itoa [of "hd (Itoa n)" n] digit_digit_char by auto

lemma render_units_hd: "render_units us = [] \<or> digit (hd (render_units us))"
  by (cases us) (auto simp: render_units_def Itoa_hd_digit)

lemma render_units_Nil: "render_units us = [] \<longleftrightarrow> us = []"
  by (cases us) (auto simp: render_units_def)

lemma takeWhile_unit:
  assumes "list_all unit_char u" "s = [] \<or> digit (hd s)"
  shows "takeWhile unit_char (u @ s) = u" "dropWhile unit_char (u @ s) = s"
proof -
  have "takeWhile unit_char s = []" "dropWhile unit_char s = s"
    using assms(2) by (cases s; simp add: unit_char_def)+
  moreover have "\<forall>c \<in> set u. unit_char c" using assms(1) by (simp add: list_all_iff)
  ultimately show "takeWhile unit_char (u @ s) = u" "dropWhile unit_char (u @ s) = s" by simp_all
qed

lemma duration_loop_units:
  "known_units us \<Longrightarrow> 0 \<le> d \<Longrightarrow> d + units_length us \<le> 2 ^ 63 \<Longrightarrow>
     duration_loop orig (render_units us) d = Inr (d + units_length us)"
proof (induction us arbitrary: d)
  case Nil
  then show ?case by (simp add: render_units_def duration_loop.simps)
next
  case (Cons x us)
  obtain n u where x: "x = (n, u)" by (cases x)
  with Cons.prems obtain k where k: "unitMap u = Some k" by (auto simp: known_units_def)
  note u = unit_table_names [OF k]
  have ks: "known_units us" using Cons.prems(1) by (auto simp: known_units_def)
  have nn: "0 \<le> units_length us" by (rule units_length_nonneg [OF ks])
  have tot: "units_length (x # us) = int n * k + units_length us" by (simp add: x k)
  have le: "int n * k \<le> 2 ^ 63" and le2: "d + int n * k \<le> 2 ^ 63" using Cons.prems(2,3) nn tot by auto
  have div: "int n \<le> 2 ^ 63 div k" using zdiv_mono1 [OF le, of k] u by simp
  have "int n \<le> 2 ^ 63" using le u by (smt (verit) mult_le_cancel_left1 of_nat_0_le_iff)
  then have n63: "n \<le> 2 ^ 63" by (metis of_nat_le_iff of_nat_numeral of_nat_power)
  let ?s = "render_units us"
  have s: "render_units (x # us) = Itoa n @ u @ ?s" by (simp add: render_units_def x)
  obtain c u' where c: "u = c # u'" and uc: "unit_char c" using u by (cases u) auto
  have li: "leadingInt 0 (Itoa n @ u @ ?s) = Some (int n, u @ ?s)"
    using leadingInt_Itoa [OF n63, of "u @ ?s"] uc by (simp add: c unit_char_def)
  have fr: "fraction (u @ ?s) = (0, 1, u @ ?s, False)" using uc by (simp add: fraction_def c unit_char_def)
  note tw = takeWhile_unit [of u ?s] u render_units_hd [of us]
  have "duration_loop orig (Itoa n @ u @ ?s) d = duration_loop orig ?s (d + int n * k)"
    using tw le2 div Cons.prems(2) Itoa_hd_digit [of n] u
    by (subst duration_loop.simps) (simp add: li fr k Let_def)
  also have "\<dots> = Inr (d + int n * k + units_length us)"
    using Cons.IH [OF ks] Cons.prems(2,3) tot u by (simp add: add.assoc)
  finally show ?case by (simp add: s tot)
qed

lemma duration_loop_range: "duration_loop orig s d = Inr d' \<Longrightarrow> 0 \<le> d \<Longrightarrow> d \<le> 2 ^ 63 \<Longrightarrow> 0 \<le> d' \<and> d' \<le> 2 ^ 63"
proof (induction orig s d rule: duration_loop.induct)
  case (1 orig s d)
  show ?case
    using "1.prems" "1.IH"
    by (subst (asm) duration_loop.simps) (auto simp: Let_def split: if_splits option.splits prod.splits)
qed

lemma ParseDuration_range: "ParseDuration s = Inr d \<Longrightarrow> - (2 ^ 63) \<le> d \<and> d < 2 ^ 63"
  by (auto simp: ParseDuration_def Let_def split: if_splits sum.splits dest!: duration_loop_range)

lemma ParseDuration_units:
  assumes "known_units us" "us \<noteq> []" "units_length us < 2 ^ 63"
  shows "ParseDuration (render_units us) = Inr (units_length us)"
proof -
  obtain n u us' where us: "us = (n, u) # us'" using assms(2) by (metis list.exhaust prod.exhaust)
  have hd: "digit (hd (render_units us))" "render_units us \<noteq> []"
    using render_units_hd [of us] by (auto simp: us render_units_def)
  have no_sign: "hd (render_units us) \<noteq> CHR ''-''" "hd (render_units us) \<noteq> CHR ''+''"
    using hd by (auto simp: digit_def)
  have "u \<noteq> []" using assms(1) unit_table_names by (auto simp: known_units_def us)
  then have "length (Itoa n) + length u \<ge> 2" by (cases u; cases "Itoa n") auto
  then have "render_units us \<noteq> ''0''" by (auto simp: us render_units_def dest: arg_cong [of _ _ length])
  moreover have "duration_loop (render_units us) (render_units us) 0 = Inr (units_length us)"
    using duration_loop_units [OF assms(1), of 0] assms(3) by simp
  ultimately show ?thesis using hd no_sign assms(3) by (simp add: ParseDuration_def)
qed

text \<open>
  The sum of the units is an unsigned 64-bit integer that is compared with \<open>2 ^ 63\<close> after each unit; a sum of exactly
  \<open>2 ^ 64\<close> wraps to zero unnoticed, and such a text is accepted with what follows.
\<close>

lemma duration_wraps: "ParseDuration ''9223372036854775808ns9223372036854775808ns1h'' = Inr 3600000000000"
  by code_simp

end
