(* ===== verification/Config.thy ===== *)
theory Config
  imports Sources GoDuration
begin

text \<open>
  \<^verbatim>\<open>pkg/config/config.go\<close>: reading and validating the configuration. The \<^verbatim>\<open>viper\<close> and
  \<^verbatim>\<open>mapstructure\<close> libraries, the table of service names and the file system are parameters;
  parsing a port number (on 32-bit words) and a duration (theory \<open>GoDuration\<close>) is Go's own and modelled.
\<close>

section \<open>Data\<close>

record ServerConfig =
  Listen :: string

record UpstreamConfig =
  Servers :: "string list"

record LoggingConfig =
  Level :: string
  LogFile :: string
  BlocklistErrorLimit :: int

record RecordsConfig =
  ResolveFrom :: string

record AllowlistConfig =
  AllowPath :: string

record CustomConfig =
  CustomList :: "string list"

record FilteringConfig =
  fEnabled :: bool
  fCacheDir :: string
  fUpdateInterval :: int
  fBlockedLog :: string
  fBlockSubdomains :: bool
  fAllowlist :: AllowlistConfig
  fCustom :: CustomConfig
  fLists :: "(string \<times> ListConfig) list"

record Config =
  cServer :: ServerConfig
  cUpstream :: UpstreamConfig
  cLogging :: LoggingConfig
  cRecords :: RecordsConfig
  cFiltering :: FilteringConfig

datatype address_error = NoPort | BadFormat string goerror | BadIP string | BadPort string

datatype config_error =
    ReadConfig goerror
  | ParseConfig goerror
  | NotATable string
  | ParseList string goerror
  | BadInterval goerror
  | BadLogLevel string
  | ListenRequired
  | BadListen address_error
  | UpstreamRequired
  | BadUpstream string address_error
  | BadErrorLimit
  | RecordsNotAccessible goerror

section \<open>Addresses\<close>

text \<open>
  \<^verbatim>\<open>net.parsePort\<close>: decimal digits accumulated in a 32-bit word, cut off at \<open>2 ^ 30\<close>; anything
  but digits asks for a lookup among the service names.
\<close>

definition cutoff :: u32 where "cutoff = 1073741824"
definition max_u32 :: u32 where "max_u32 = 4294967295"

fun port_digits :: "u32 \<Rightarrow> string \<Rightarrow> u32 option" where
  "port_digits n [] = Some n"
| "port_digits n (c # s) =
     (let d = (of_char c :: nat) in
      if \<not> (48 \<le> d \<and> d \<le> 57) then None
      else if n \<ge> cutoff then Some max_u32
      else
        let n10 = n * 10; nn = n10 + of_nat (d - 48) in
        if nn < n10 then Some max_u32 else port_digits nn s)"

definition parsePort :: "string \<Rightarrow> int \<times> bool" where
  "parsePort service =
     (if service = [] then (0, False)
      else
        let neg = (hd service = CHR ''-'');
            digits = (if hd service = CHR ''+'' \<or> neg then tl service else service)
        in
        case port_digits 0 digits of
          None \<Rightarrow> (0, True)
        | Some n \<Rightarrow>
            let port = (if \<not> neg \<and> n \<ge> cutoff then uint cutoff - 1
                        else if neg \<and> n > cutoff then uint cutoff
                        else uint n)
            in (if neg then - port else port, False))"

definition LookupPort :: "(string \<Rightarrow> goerror + int) \<Rightarrow> string \<Rightarrow> goerror + int" where
  "LookupPort services service =
     (case parsePort service of (port0, needsLookup) \<Rightarrow>
        case (if needsLookup then services service else Inr port0) of
          Inl err \<Rightarrow> Inl err
        | Inr port \<Rightarrow> if 0 > port \<or> port > 65535 then Inl ''invalid port'' else Inr port)"

definition ValidateAddress :: "(string \<Rightarrow> goerror + int) \<Rightarrow> string \<Rightarrow> address_error option" where
  "ValidateAddress services addr =
     (case SplitHostPort addr of (host, port, err) \<Rightarrow>
        if port = [] then Some NoPort
        else (case err of
            Some e \<Rightarrow> Some (BadFormat addr e)
          | None \<Rightarrow>
              if ParseIP host = None then Some (BadIP host)
              else (case LookupPort services port of
                  Inl _ \<Rightarrow> Some (BadPort port)
                | Inr _ \<Rightarrow> None)))"

definition ParseUpstream :: "string \<Rightarrow> string" where
  "ParseUpstream upstream = (if \<not> Contains upstream '':'' then upstream @ '':53'' else upstream)"

definition ValidateLogLevel :: "string \<Rightarrow> config_error option" where
  "ValidateLogLevel level =
     (if ToLower level \<in> {''debug'', ''info'', ''warn'', ''error''} then None else Some (BadLogLevel level))"

section \<open>Validation\<close>

fun parse_upstreams :: "(string \<Rightarrow> goerror + int) \<Rightarrow> string list \<Rightarrow> config_error + string list" where
  "parse_upstreams services [] = Inr []"
| "parse_upstreams services (addr # rest) =
     (let parsed = ParseUpstream addr in
      case ValidateAddress services parsed of
        Some err \<Rightarrow> Inl (BadUpstream addr err)
      | None \<Rightarrow>
          (case parse_upstreams services rest of
             Inl err \<Rightarrow> Inl err
           | Inr ps \<Rightarrow> Inr (parsed # ps)))"

text \<open>\<open>stat\<close> is the error of \<^verbatim>\<open>os.Stat\<close>, if any. The result is the configuration with the upstreams completed.\<close>

definition validateConfig ::
    "(string \<Rightarrow> goerror + int) \<Rightarrow> (string \<Rightarrow> goerror option) \<Rightarrow> Config \<Rightarrow> config_error + Config" where
  "validateConfig services stat cfg =
     (case ValidateLogLevel (Level (cLogging cfg)) of
        Some err \<Rightarrow> Inl err
      | None \<Rightarrow>
          if Listen (cServer cfg) = [] then Inl ListenRequired
          else (case ValidateAddress services (Listen (cServer cfg)) of
              Some err \<Rightarrow> Inl (BadListen err)
            | None \<Rightarrow>
                if Servers (cUpstream cfg) = [] then Inl UpstreamRequired
                else (case parse_upstreams services (Servers (cUpstream cfg)) of
                    Inl err \<Rightarrow> Inl err
                  | Inr parsed \<Rightarrow>
                      let cfg' = cfg\<lparr>cUpstream := (cUpstream cfg)\<lparr>Servers := parsed\<rparr>\<rparr> in
                      if BlocklistErrorLimit (cLogging cfg') < 0 then Inl BadErrorLimit
                      else if ResolveFrom (cRecords cfg') \<noteq> [] then
                        (case stat (ResolveFrom (cRecords cfg')) of
                           Some err \<Rightarrow> Inl (RecordsNotAccessible err)
                         | None \<Rightarrow> Inr cfg')
                      else Inr cfg')))"

section \<open>Loading\<close>

text \<open>
  A value of a configuration table as \<^verbatim>\<open>viper\<close> delivers it: a table or something else. A viper
  instance that has read its file is what the program asks it for.
\<close>

datatype 't cfg_value = Table 't | Scalar

text \<open>The values the program sets as defaults.\<close>

datatype default_value = DefString string | DefInt int | DefBool bool

record 't viper =
  Unmarshal :: "goerror + Config"
  GetStringMap :: "(string \<times> 't cfg_value) list"
  GetUpdateInterval :: string

record 't cfgenv =
  Getenv :: "string \<Rightarrow> string"
  ReadInConfig :: "string \<Rightarrow> (string \<times> default_value) list \<Rightarrow> goerror + 't viper"
  Decode :: "'t \<Rightarrow> goerror + ListConfig"
  Services :: "string \<Rightarrow> goerror + int"
  Stat :: "string \<Rightarrow> goerror option"

definition defaultConfigPath :: string where "defaultConfigPath = ''/etc/resolvit/resolvit.conf''"
definition configEnvVar :: string where "configEnvVar = ''RESOLVIT_CONFIG''"

definition setDefaults :: "(string \<times> default_value) list" where
  "setDefaults =
     [(''logging.level'', DefString ''info''), (''logging.file'', DefString ''stdout''),
      (''logging.blocklist_error_limit'', DefInt 20), (''filtering.enabled'', DefBool False),
      (''filtering.cache_dir'', DefString ''/var/cache/resolvit''), (''filtering.update_interval'', DefString ''24h''),
      (''filtering.block_subdomains'', DefBool False)]"

definition parseDuration :: "string \<Rightarrow> goerror + int" where
  "parseDuration raw = (if raw = [] then Inr 0 else ParseDuration raw)"

definition ignored_keys :: "string list" where
  "ignored_keys = [''enabled'', ''cache_dir'', ''update_interval'', ''blocked_log'', ''block_subdomains'',
     ''allowlist'', ''custom'']"

text \<open>Assignment to a Go map, on its list of entries.\<close>

definition map_put :: "'k \<Rightarrow> 'v \<Rightarrow> ('k \<times> 'v) list \<Rightarrow> ('k \<times> 'v) list" where
  "map_put k v m = filter (\<lambda>e. fst e \<noteq> k) m @ [(k, v)]"

fun parse_lists ::
    "'t cfgenv \<Rightarrow> (string \<times> 't cfg_value) list \<Rightarrow> (string \<times> ListConfig) list \<Rightarrow> config_error + (string \<times> ListConfig) list" where
  "parse_lists V [] acc = Inr acc"
| "parse_lists V ((key, value) # rest) acc =
     (if key \<in> set ignored_keys then parse_lists V rest acc
      else (case value of
          Scalar \<Rightarrow> Inl (NotATable key)
        | Table t \<Rightarrow>
            (case Decode V t of
               Inl err \<Rightarrow> Inl (ParseList key err)
             | Inr cfg \<Rightarrow> parse_lists V rest (map_put (ToLower key) cfg acc))))"

definition parseListConfigs :: "'t cfgenv \<Rightarrow> 't viper \<Rightarrow> config_error + (string \<times> ListConfig) list" where
  "parseListConfigs V v =
     (if GetStringMap v = [] then Inr [] else parse_lists V (GetStringMap v) [])"

definition config_path :: "'t cfgenv \<Rightarrow> string" where
  "config_path V = (let fromEnv = TrimSpace (Getenv V configEnvVar) in if fromEnv \<noteq> [] then fromEnv else defaultConfigPath)"

definition loadConfig :: "'t cfgenv \<Rightarrow> config_error + Config" where
  "loadConfig V =
     (case ReadInConfig V (config_path V) setDefaults of
        Inl err \<Rightarrow> Inl (ReadConfig err)
      | Inr v \<Rightarrow>
          (case Unmarshal v of
             Inl err \<Rightarrow> Inl (ParseConfig err)
           | Inr cfg \<Rightarrow>
               (case parseListConfigs V v of
                  Inl err \<Rightarrow> Inl err
                | Inr ls \<Rightarrow>
                    (case parseDuration (GetUpdateInterval v) of
                       Inl err \<Rightarrow> Inl (BadInterval err)
                     | Inr d \<Rightarrow>
                         validateConfig (Services V) (Stat V)
                           (cfg\<lparr>cFiltering := (cFiltering cfg)\<lparr>fLists := ls, fUpdateInterval := d\<rparr>\<rparr>)))))"

definition config_Setup :: "'t cfgenv \<Rightarrow> config_error + Config" where
  "config_Setup V = (case loadConfig V of Inl err \<Rightarrow> Inl err | Inr cfg \<Rightarrow> Inr cfg)"


section \<open>What validation guarantees\<close>

text \<open>An address that was accepted: an IP address and a port, by number or by name.\<close>

definition address_ok :: "(string \<Rightarrow> goerror + int) \<Rightarrow> string \<Rightarrow> bool" where
  "address_ok services addr \<longleftrightarrow>
     (\<exists>host port p. SplitHostPort addr = (host, port, None) \<and> port \<noteq> [] \<and> ParseIP host \<noteq> None \<and>
        LookupPort services port = Inr p)"

lemma LookupPort_range: "LookupPort services port = Inr p \<Longrightarrow> 0 \<le> p \<and> p \<le> 65535"
  by (auto simp: LookupPort_def split: prod.splits sum.splits if_splits)

lemma ValidateAddress_iff: "ValidateAddress services addr = None \<longleftrightarrow> address_ok services addr"
  by (auto simp: ValidateAddress_def address_ok_def split: prod.splits option.splits sum.splits if_splits)

lemma SplitHostPort_error_no_port: "SplitHostPort addr = (host, port, Some e) \<Longrightarrow> port = []"
  by (auto simp: SplitHostPort_def Let_def split: option.splits sum.splits if_splits prod.splits)

text \<open>
  The branch of \<^verbatim>\<open>ValidateAddress\<close> that reports a malformed address is never taken: an address that
  does not split has an empty port, which is reported first.
\<close>

theorem ValidateAddress_format_unreachable: "ValidateAddress services addr \<noteq> Some (BadFormat a e)"
  using SplitHostPort_error_no_port
  by (fastforce simp: ValidateAddress_def split: prod.splits option.splits sum.splits if_splits)

lemma parse_upstreams_ok:
  "parse_upstreams services us = Inr ps \<Longrightarrow> ps = map ParseUpstream us \<and> list_all (address_ok services) ps"
  by (induction us arbitrary: ps)
    (auto simp: Let_def ValidateAddress_iff split: option.splits sum.splits)

lemma validateConfig_upstreams: "validateConfig services stat cfg = Inr cfg' \<Longrightarrow> Servers (cUpstream cfg') \<noteq> []"
  using parse_upstreams_ok [of services "Servers (cUpstream cfg)"]
  by (auto simp: validateConfig_def Let_def split: option.splits sum.splits if_splits)

lemma config_Setup_upstreams: "config_Setup V = Inr cfg \<Longrightarrow> Servers (cUpstream cfg) \<noteq> []"
  by (auto simp: config_Setup_def loadConfig_def Let_def validateConfig_upstreams split: sum.splits)

lemma validateConfig_addresses:
  assumes "validateConfig services stat cfg = Inr cfg'"
  shows "\<forall>addr \<in> insert (Listen (cServer cfg')) (set (Servers (cUpstream cfg'))). address_ok services addr"
proof -
  obtain ps where "parse_upstreams services (Servers (cUpstream cfg)) = Inr ps"
    and "cfg' = cfg\<lparr>cUpstream := (cUpstream cfg)\<lparr>Servers := ps\<rparr>\<rparr>"
    and "ValidateAddress services (Listen (cServer cfg)) = None"
    using assms by (auto simp: validateConfig_def Let_def split: option.splits sum.splits if_splits)
  then show ?thesis using parse_upstreams_ok by (fastforce simp: ValidateAddress_iff list_all_iff)
qed

lemma config_Setup_addresses:
  "config_Setup V = Inr cfg \<Longrightarrow>
    \<forall>addr \<in> insert (Listen (cServer cfg)) (set (Servers (cUpstream cfg))). address_ok (Services V) addr"
  by (auto simp: config_Setup_def loadConfig_def Let_def split: sum.splits dest: validateConfig_addresses)

text \<open>
  C39: A configuration that passes validation has a known log level, a listening address and at least one
  upstream server, all of them an IP address with a port between 0 and 65535, and a
  non-negative error limit; the default port was added to upstreams that had none, and nothing
  else was changed.
\<close>

theorem validateConfig_sound:
  assumes "validateConfig services stat cfg = Inr cfg'"
  shows "cfg' = cfg\<lparr>cUpstream := (cUpstream cfg)\<lparr>Servers := map ParseUpstream (Servers (cUpstream cfg))\<rparr>\<rparr> \<and>
    Servers (cUpstream cfg') \<noteq> [] \<and>
    (\<forall>addr \<in> insert (Listen (cServer cfg')) (set (Servers (cUpstream cfg'))). address_ok services addr) \<and>
    ToLower (Level (cLogging cfg')) \<in> {''debug'', ''info'', ''warn'', ''error''} \<and>
    0 \<le> BlocklistErrorLimit (cLogging cfg') \<and>
    (ResolveFrom (cRecords cfg') = [] \<or> stat (ResolveFrom (cRecords cfg')) = None)"
proof -
  obtain ps where ps: "parse_upstreams services (Servers (cUpstream cfg)) = Inr ps" "Servers (cUpstream cfg) \<noteq> []"
    and cfg': "cfg' = cfg\<lparr>cUpstream := (cUpstream cfg)\<lparr>Servers := ps\<rparr>\<rparr>"
    and listen: "ValidateAddress services (Listen (cServer cfg)) = None"
    and level: "ValidateLogLevel (Level (cLogging cfg)) = None"
    and limit: "0 \<le> BlocklistErrorLimit (cLogging cfg)"
    and stat: "ResolveFrom (cRecords cfg) = [] \<or> stat (ResolveFrom (cRecords cfg)) = None"
    using assms by (auto simp: validateConfig_def Let_def split: option.splits sum.splits if_splits)
  have "ps = map ParseUpstream (Servers (cUpstream cfg))" "list_all (address_ok services) ps"
    using parse_upstreams_ok [OF ps(1)] by blast+
  with ps(2) cfg' listen level limit stat show ?thesis
    by (auto simp: ValidateAddress_iff ValidateLogLevel_def list_all_iff split: if_splits)
qed

text \<open>A configuration for concrete runs.\<close>

definition sample_config :: Config where
  "sample_config = \<lparr>cServer = \<lparr>Listen = ''127.0.0.1:5300''\<rparr>, cUpstream = \<lparr>Servers = [''9.9.9.9'']\<rparr>,
     cLogging = \<lparr>Level = ''INFO'', LogFile = ''stdout'', BlocklistErrorLimit = 20\<rparr>,
     cRecords = \<lparr>ResolveFrom = []\<rparr>,
     cFiltering = \<lparr>fEnabled = False, fCacheDir = [], fUpdateInterval = 0, fBlockedLog = [], fBlockSubdomains = False,
       fAllowlist = \<lparr>AllowPath = []\<rparr>, fCustom = \<lparr>CustomList = []\<rparr>, fLists = []\<rparr>\<rparr>"

lemma sample_addresses:
  "ValidateAddress (\<lambda>s. Inl ''unknown port'') ''127.0.0.1:5300'' = None"
  "ValidateAddress (\<lambda>s. Inl ''unknown port'') ''9.9.9.9:53'' = None"
proof -
  have "SplitHostPort ''127.0.0.1:5300'' = (''127.0.0.1'', ''5300'', None)"
    "SplitHostPort ''9.9.9.9:53'' = (''9.9.9.9'', ''53'', None)"
    "LookupPort (\<lambda>s. Inl ''unknown port'') ''5300'' = Inr 5300" "LookupPort (\<lambda>s. Inl ''unknown port'') ''53'' = Inr 53"
    by code_simp+
  moreover have "ParseIP ''127.0.0.1'' \<noteq> None" "ParseIP ''9.9.9.9'' \<noteq> None" by (simp_all add: ParseIP_eval)
  ultimately show "ValidateAddress (\<lambda>s. Inl ''unknown port'') ''127.0.0.1:5300'' = None"
    "ValidateAddress (\<lambda>s. Inl ''unknown port'') ''9.9.9.9:53'' = None"
    by (simp_all add: ValidateAddress_def)
qed

lemma sample_config_valid:
  "validateConfig (\<lambda>s. Inl ''unknown port'') (\<lambda>p. None) sample_config =
     Inr (sample_config\<lparr>cUpstream := \<lparr>Servers = [''9.9.9.9:53'']\<rparr>\<rparr>)"
proof -
  have "ParseUpstream ''9.9.9.9'' = ''9.9.9.9:53''" "ValidateLogLevel ''INFO'' = None" by code_simp+
  then show ?thesis by (simp add: validateConfig_def sample_config_def sample_addresses)
qed

theorem validateConfig_sound_witness:
  "\<exists>cfg'. validateConfig (\<lambda>s. Inl ''unknown port'') (\<lambda>p. None) sample_config = Inr cfg' \<and>
     Servers (cUpstream cfg') = [''9.9.9.9:53''] \<and> address_ok (\<lambda>s. Inl ''unknown port'') ''9.9.9.9:53''"
proof (intro exI conjI, rule sample_config_valid)
  show "address_ok (\<lambda>s. Inl ''unknown port'') ''9.9.9.9:53''"
    using validateConfig_sound [OF sample_config_valid] by simp
qed simp

text \<open>Numbers that fit into 16 bits are read as they are written, whatever the service table says.\<close>

lemma unat_of_nat_small: "k < 2 ^ 32 \<Longrightarrow> unat (of_nat k :: u32) = k"
  by (simp add: unsigned_of_nat take_bit_nat_eq_self)

lemma port_digits_step:
  assumes "k * 10 + d < 2 ^ 30" "d < 10"
  shows "port_digits (of_nat k) (digit_char d # s) = port_digits (of_nat (k * 10 + d)) s"
proof -
  have "unat (of_nat k :: u32) = k" "unat (of_nat (k * 10) :: u32) = k * 10"
    "unat (of_nat (k * 10 + d) :: u32) = k * 10 + d"
    by (rule unat_of_nat_small; use assms(1) in simp)+
  then have "(of_nat k :: u32) < cutoff" "\<not> (of_nat (k * 10 + d) :: u32) < of_nat (k * 10)"
    using assms(1) by (simp_all only: word_less_nat_alt, simp_all add: cutoff_def)
  moreover have "of_char (digit_char d) = 48 + d" using assms(2) by (simp add: digit_char_def)
  ultimately show ?thesis using assms(2) by (simp add: Let_def not_le [symmetric] algebra_simps)
qed

lemma port_digits_Itoa: "p < 2 ^ 30 \<Longrightarrow> port_digits 0 (Itoa p @ s) = port_digits (of_nat p) s"
proof (induction p arbitrary: s rule: Itoa.induct)
  case (1 p)
  show ?case
  proof (cases "p < 10")
    case True
    then show ?thesis using port_digits_step [of 0 p s] by (subst Itoa.simps) simp
  next
    case False
    have "port_digits 0 (Itoa (p div 10) @ digit_char (p mod 10) # s) =
        port_digits (of_nat (p div 10)) (digit_char (p mod 10) # s)"
      using "1.IH" [OF False] "1.prems" by simp
    also have "\<dots> = port_digits (of_nat p) s"
      using port_digits_step [of "p div 10" "p mod 10" s] "1.prems" by (simp add: mult.commute)
    finally show ?thesis using False by (subst Itoa.simps) simp
  qed
qed

lemma Itoa_no_sign: "Itoa p \<noteq> [] \<and> hd (Itoa p) \<noteq> CHR ''+'' \<and> hd (Itoa p) \<noteq> CHR ''-''"
proof -
  have "Itoa p \<noteq> []" by (subst Itoa.simps) simp
  moreover have "CHR ''+'' \<notin> set (Itoa p)" "CHR ''-'' \<notin> set (Itoa p)"
    by (rule Itoa_no_char; simp)+
  ultimately show ?thesis by (metis hd_in_set)
qed

text \<open>
  A port given as a number is that port, whatever the service table says.
\<close>

theorem LookupPort_number:
  assumes "p \<le> 65535"
  shows "LookupPort services (Itoa p) = Inr (int p)"
proof -
  have "p < 2 ^ 30" using assms by simp
  have "unat (of_nat p :: u32) = p" using assms by (intro unat_of_nat_small) simp
  moreover from this have "\<not> cutoff \<le> (of_nat p :: u32)" using assms by (simp only: word_le_nat_alt, simp add: cutoff_def)
  moreover have "port_digits 0 (Itoa p) = Some (of_nat p)"
    using port_digits_Itoa [OF \<open>p < 2 ^ 30\<close>, of "[]"] by simp
  ultimately have "parsePort (Itoa p) = (int p, False)"
    using Itoa_no_sign [of p] by (simp add: parsePort_def Let_def del: of_nat_unat) (metis uint_nat)
  then show ?thesis using assms by (simp add: LookupPort_def)
qed

theorem LookupPort_number_witness: "LookupPort (\<lambda>s. Inl ''unknown port'') (Itoa 5300) = Inr 5300"
  using LookupPort_number [of 5300] by simp


section \<open>The update interval\<close>

lemma parseDuration_range: "parseDuration raw = Inr d \<Longrightarrow> - (2 ^ 63) \<le> d \<and> d < 2 ^ 63"
  using ParseDuration_range [of raw d] by (auto simp: parseDuration_def split: if_splits)

text \<open>An interval of whole units is the sum of its parts, when that fits a duration.\<close>

lemma parseDuration_units:
  assumes "known_units us" "units_length us < 2 ^ 63"
  shows "parseDuration (render_units us) = Inr (units_length us)"
  using ParseDuration_units [OF assms(1) _ assms(2)] render_units_Nil [of us]
  by (cases "us = []") (simp_all add: parseDuration_def)

lemma validateConfig_filtering: "validateConfig services stat cfg = Inr cfg' \<Longrightarrow> cFiltering cfg' = cFiltering cfg"
  by (auto simp: validateConfig_def Let_def split: option.splits sum.splits if_splits)

lemma config_Setup_interval:
  assumes "config_Setup V = Inr cfg" "ReadInConfig V (config_path V) setDefaults = Inr v"
    "parseDuration (GetUpdateInterval v) = Inr d"
  shows "fUpdateInterval (cFiltering cfg) = d"
  using assms validateConfig_filtering
  by (fastforce simp: config_Setup_def loadConfig_def split: sum.splits)

lemma sample_units:
  "known_units [(1, ''h''), (30, ''m'')]" "units_length [(1, ''h''), (30, ''m'')] = 5400000000000"
  "render_units [(1, ''h''), (30, ''m'')] = ''1h30m''"
  by (simp add: known_units_def unitMap_def unit_table_def, simp add: unitMap_def unit_table_def, code_simp)

end
