(* ===== verification/Logger.thy ===== *)
theory Logger
  imports Config Records
begin

text \<open>
  \<^verbatim>\<open>pkg/logger/logger.go\<close>: the level and the destination of the program's log. What the log
  writes is not modelled; a setup either ends the process or yields the settings of the logger.
\<close>

section \<open>Operations\<close>

datatype log_level = LevelDebug | LevelInfo | LevelWarn | LevelError

text \<open>The levels of \<^verbatim>\<open>log/slog\<close> are integers, ordered by severity.\<close>

fun severity :: "log_level \<Rightarrow> int" where
  "severity LevelDebug = -4"
| "severity LevelInfo = 0"
| "severity LevelWarn = 4"
| "severity LevelError = 8"

lemma severity_inj: "severity a = severity b \<longleftrightarrow> a = b"
  by (cases a; cases b) simp_all

instantiation log_level :: linorder
begin

definition less_eq_log_level :: "log_level \<Rightarrow> log_level \<Rightarrow> bool" where
  "a \<le> b \<longleftrightarrow> severity a \<le> severity b"

definition less_log_level :: "log_level \<Rightarrow> log_level \<Rightarrow> bool" where
  "a < b \<longleftrightarrow> severity a < severity b"

instance
  by standard (auto simp: less_eq_log_level_def less_log_level_def severity_inj)

end

datatype log_writer = Stdout | LogToFile string

record logger_settings =
  ls_level :: log_level
  ls_writer :: log_writer
  ls_dropTime :: bool

datatype log_path_error = LogPathEmpty | LogPathIsDirectory string | LogPathEscapes string

definition getLogLevel :: "string \<Rightarrow> log_level" where
  "getLogLevel logLevel =
     (let l = ToLower logLevel in
      if l = ''debug'' then LevelDebug
      else if l = ''info'' then LevelInfo
      else if l = ''warn'' then LevelWarn
      else if l = ''error'' then LevelError
      else LevelInfo)"

definition sanitizeLogPath :: "string \<Rightarrow> log_path_error + string" where
  "sanitizeLogPath path =
     (if path = [] then Inl LogPathEmpty
      else
        let clean = Clean path in
        if clean = ''.'' \<or> clean = [slash] then Inl (LogPathIsDirectory path)
        else if clean = ''..'' \<or> HasPrefix clean (''..'' @ [slash]) then Inl (LogPathEscapes path)
        else Inr clean)"

text \<open>\<open>None\<close> is the exit of the process with status 1; \<open>open_log\<close> is the error of opening the file.\<close>

definition logger_Setup :: "(string \<Rightarrow> goerror option) \<Rightarrow> string \<Rightarrow> string \<Rightarrow> logger_settings option" where
  "logger_Setup open_log logLevel logFile =
     (if logFile \<noteq> ''stdout'' then
        (case sanitizeLogPath logFile of
           Inl err \<Rightarrow> None
         | Inr resolvedPath \<Rightarrow>
             (case open_log resolvedPath of
                Some err \<Rightarrow> None
              | None \<Rightarrow> Some \<lparr>ls_level = getLogLevel logLevel, ls_writer = LogToFile resolvedPath, ls_dropTime = False\<rparr>))
      else Some \<lparr>ls_level = getLogLevel logLevel, ls_writer = Stdout, ls_dropTime = True\<rparr>)"

text \<open>Whether the handler the logger is made with writes a message of a level.\<close>

definition log_Enabled :: "logger_settings \<Rightarrow> log_level \<Rightarrow> bool" where
  "log_Enabled s l \<longleftrightarrow> ls_level s \<le> l"

section \<open>Properties\<close>

text \<open>The log path is checked exactly as the path of the records file.\<close>

lemma sanitizeLogPath_eq_records: "sanitizeLogPath path = Inr p \<longleftrightarrow> sanitizeRecordsPath path = Inr p"
  by (simp add: sanitizeLogPath_def sanitizeRecordsPath_def Let_def)

fun level_name :: "log_level \<Rightarrow> string" where
  "level_name LevelDebug = ''debug''"
| "level_name LevelInfo = ''info''"
| "level_name LevelWarn = ''warn''"
| "level_name LevelError = ''error''"

text \<open>
  Every level that validation accepts is the level the logger uses, in any case; the fallback of the
  logger is for levels that validation rejects.
\<close>

theorem getLogLevel_valid: "ValidateLogLevel level = None \<longleftrightarrow> level_name (getLogLevel level) = ToLower level"
  by (auto simp: ValidateLogLevel_def getLogLevel_def Let_def)

text \<open>
  Raising the configured level only silences messages, and no configuration silences errors (a failed
  upstream, a failed reload); warnings (an invalid line of the records file, a list read from its cache file after a failed
  download) appear unless the level is \<^verbatim>\<open>error\<close>.
\<close>

lemma logger_Setup_level: "logger_Setup open_log logLevel logFile = Some s \<Longrightarrow> ls_level s = getLogLevel logLevel"
  by (auto simp: logger_Setup_def split: if_splits sum.splits option.splits)

lemma LevelError_top: "l \<le> LevelError"
  by (cases l) (simp_all add: less_eq_log_level_def)

lemma log_Enabled_mono: "log_Enabled s l \<Longrightarrow> ls_level s' \<le> ls_level s \<Longrightarrow> log_Enabled s' l"
  unfolding log_Enabled_def by (rule order_trans)

lemma errors_always_logged: "log_Enabled s LevelError"
  unfolding log_Enabled_def by (rule LevelError_top)

lemma warnings_logged_iff:
  assumes "logger_Setup open_log logLevel logFile = Some s"
  shows "log_Enabled s LevelWarn \<longleftrightarrow> ToLower logLevel \<noteq> ''error''"
  by (auto simp: log_Enabled_def logger_Setup_level [OF assms] getLogLevel_def less_eq_log_level_def Let_def)

end
