(* ===== verification/Service.thy ===== *)
theory Service
  imports Requests FilterRefresh Logger
begin

text \<open>
  \<^verbatim>\<open>pkg/server/server.go\<close>, \<^verbatim>\<open>handler.New\<close> and \<^verbatim>\<open>main.go\<close>: starting the program, and the running
  program as a transition system whose steps are served requests, refreshes of the lists, signals
  and changes of the outside world.
\<close>

section \<open>The server\<close>

record dnsServer =
  ServerAddr :: string
  ServerNet :: string
  UDPSize :: int

record Server =
  srv_server :: dnsServer
  srv_tcpServer :: dnsServer
  srv_forwarder :: Forwarder

definition handler_New :: "Forwarder \<Rightarrow> string \<Rightarrow> Handler" where
  "handler_New f addr = \<lparr>forwarder = f, listen = addr\<rparr>"

text \<open>The server, the handler registered for the root zone and the cache they share.\<close>

definition server_New :: "string \<Rightarrow> string list \<Rightarrow> Server \<times> Handler \<times> DNSCache" where
  "server_New addr upstreams =
     (let f = forward_New upstreams in
      (\<lparr>srv_server = \<lparr>ServerAddr = addr, ServerNet = ''udp'', UDPSize = 65535\<rparr>,
        srv_tcpServer = \<lparr>ServerAddr = addr, ServerNet = ''tcp'', UDPSize = 0\<rparr>,
        srv_forwarder = f\<rparr>,
       handler_New f addr, cache_New))"

definition ClearCache :: "'n world \<Rightarrow> 'n world" where
  "ClearCache w = w\<lparr>w_cache := cache_Clear (w_cache w)\<rparr>"

text \<open>
  \<^verbatim>\<open>Start\<close> serves TCP in the background, where a failure is only logged, and returns what the UDP
  server returns. What serving on a listener ends with is an argument; the result pairs the
  error with the TCP errors that are logged.
\<close>

definition Server_Start :: "(dnsServer \<Rightarrow> goerror option) \<Rightarrow> Server \<Rightarrow> goerror option \<times> goerror list" where
  "Server_Start ListenAndServe s =
     (let tcp_log = (case ListenAndServe (srv_tcpServer s) of Some err \<Rightarrow> [err] | None \<Rightarrow> []) in
      case ListenAndServe (srv_server s) of
        Some err \<Rightarrow> (Some err, tcp_log)
      | None \<Rightarrow> (None, tcp_log))"

section \<open>The program\<close>

definition ResolvitVersion :: string where "ResolvitVersion = ''0.0.0-src''"

definition handleVersionFlag :: "string list \<Rightarrow> bool" where
  "handleVersionFlag args \<longleftrightarrow> ''--version'' \<in> set (drop 1 args)"

definition loadRecords :: "'n osenv \<Rightarrow> string \<Rightarrow> 'n world \<Rightarrow> records_error option \<times> 'n world" where
  "loadRecords S recordsPath w =
     (if recordsPath = [] then (None, w)
      else (case LoadFromFile (\<lambda>p. OpenFile S p (w_net w)) (w_records w) recordsPath of
          (recs, warnings, err) \<Rightarrow> (err, w\<lparr>w_records := recs\<rparr>)))"

record 'n program =
  p_cfg :: Config
  p_server :: Server
  p_handler :: Handler
  p_ticker :: bool
  p_world :: "'n world"

datatype run_error = SetupConfig config_error | LoadRecordsError records_error

datatype 'n startup = StartError run_error | StartExit int | Started "'n program"

definition filter_options :: "Config \<Rightarrow> FilterOptions" where
  "filter_options cfg =
     (let fc = cFiltering cfg;
          srcs = BuildSources Catalog (fLists fc) (CustomList (fCustom fc))
      in \<lparr>optEnabled = fEnabled fc, optBlockSubdomains = fBlockSubdomains fc,
          optAllowlistPath = AllowPath (fAllowlist fc), optSources = srcs, optCacheDir = fCacheDir fc,
          optUpdateInterval = fUpdateInterval fc, optBlockedLogPath = fBlockedLog fc,
          optErrorLimit = BlocklistErrorLimit (cLogging cfg)\<rparr>)"

text \<open>The filter of \<^verbatim>\<open>run\<close>, whether its refresh loop runs, and the world after its first load.\<close>

definition start_filter ::
    "dnslib \<Rightarrow> 'n osenv \<Rightarrow> (string \<Rightarrow> goerror + string) \<Rightarrow> Config \<Rightarrow> 'n \<Rightarrow> Filter option \<times> bool \<times> 'n" where
  "start_filter L S open_append cfg n =
     (if \<not> fEnabled (cFiltering cfg) then (None, False, n)
      else
        (case Filter_Start L S (NewFilter open_append (filter_options cfg)) n of
           ((f', ticking), logs, n') \<Rightarrow> (Some f', ticking, n')))"

text \<open>The part of \<^verbatim>\<open>run\<close> before its signal loop, in the world \<open>n\<close>.\<close>

definition run_start ::
    "dnslib \<Rightarrow> 'n osenv \<Rightarrow> 't cfgenv \<Rightarrow> (string \<Rightarrow> goerror option) \<Rightarrow> (string \<Rightarrow> goerror + string) \<Rightarrow> 'n \<Rightarrow> 'n startup" where
  "run_start L S V open_log open_append n =
     (case config_Setup V of
        Inl err \<Rightarrow> StartError (SetupConfig err)
      | Inr cfg \<Rightarrow>
          (case logger_Setup open_log (Level (cLogging cfg)) (LogFile (cLogging cfg)) of
             None \<Rightarrow> StartExit 1
           | Some settings \<Rightarrow>
               let w0 = \<lparr>w_records = Map.empty, w_heap = [], w_cache = Map.empty, w_filter = None,
                         w_net = n, w_sent = []\<rparr>
               in
               (case loadRecords S (ResolveFrom (cRecords cfg)) w0 of
                  (Some err, _) \<Rightarrow> StartError (LoadRecordsError err)
                | (None, w1) \<Rightarrow>
                    (case start_filter L S open_append cfg (w_net w1) of
                       (flt, ticking, n') \<Rightarrow>
                         (case server_New (Listen (cServer cfg)) (Servers (cUpstream cfg)) of
                            (srv, hdl, cache) \<Rightarrow>
                              Started \<lparr>p_cfg = cfg, p_server = srv, p_handler = hdl, p_ticker = ticking,
                                p_world = w1\<lparr>w_cache := cache, w_filter := flt, w_net := n'\<rparr>\<rparr>)))))"

text \<open>The program up to its signal loop: it prints its version and ends, exits with a status, or runs.\<close>

datatype 'n main_result = MainPrinted string | MainExit int | MainRunning "'n program"

definition main ::
    "string list \<Rightarrow> dnslib \<Rightarrow> 'n osenv \<Rightarrow> 't cfgenv \<Rightarrow> (string \<Rightarrow> goerror option) \<Rightarrow> (string \<Rightarrow> goerror + string) \<Rightarrow>
     'n \<Rightarrow> 'n main_result" where
  "main args L S V open_log open_append n =
     (if handleVersionFlag args then MainPrinted (''resolvit version '' @ ResolvitVersion @ [newline])
      else
        (case run_start L S V open_log open_append n of
           StartError err \<Rightarrow> MainExit 1
         | StartExit c \<Rightarrow> MainExit c
         | Started p \<Rightarrow> MainRunning p))"

datatype signal = SIGINT | SIGTERM | SIGHUP | OtherSignal

datatype 'n signal_result = Exit int | Continue "'n world"

definition handle_signal :: "'n osenv \<Rightarrow> Config \<Rightarrow> signal \<Rightarrow> 'n world \<Rightarrow> 'n signal_result" where
  "handle_signal S cfg s w =
     (case s of
        SIGINT \<Rightarrow> Exit 0
      | SIGTERM \<Rightarrow> Exit 0
      | SIGHUP \<Rightarrow>
          (case loadRecords S (ResolveFrom (cRecords cfg)) w of
             (Some err, w') \<Rightarrow> Continue w'
           | (None, w') \<Rightarrow> Continue (ClearCache w'))
      | OtherSignal \<Rightarrow> Exit 1)"

section \<open>The running program\<close>

datatype 'n pstate = Running "'n program" | Exited int | Crashed

text \<open>
  The steps of the running program. A request whose handler never returns takes no step: it
  occupies its own goroutine.
\<close>

inductive step :: "'n env \<Rightarrow> 'n osenv \<Rightarrow> 'n pstate \<Rightarrow> 'n pstate \<Rightarrow> bool" for E S where
  step_request:
    "HandleDNSRequest E (p_handler p) remote req (p_world p) = Some (Return w) \<Longrightarrow>
     step E S (Running p) (Running (p\<lparr>p_world := w\<rparr>))"
| step_panic:
    "HandleDNSRequest E (p_handler p) remote req (p_world p) = Some Panic \<Longrightarrow>
     step E S (Running p) Crashed"
| step_refresh:
    "p_ticker p \<Longrightarrow> w_filter (p_world p) = Some f \<Longrightarrow>
     Filter_LoadOnce (dlib E) S f (w_net (p_world p)) = (f', logs, n) \<Longrightarrow>
     step E S (Running p) (Running (p\<lparr>p_world := (p_world p)\<lparr>w_filter := Some f', w_net := n\<rparr>\<rparr>))"
| step_signal:
    "handle_signal S (p_cfg p) s (p_world p) = Continue w \<Longrightarrow>
     step E S (Running p) (Running (p\<lparr>p_world := w\<rparr>))"
| step_exit:
    "handle_signal S (p_cfg p) s (p_world p) = Exit c \<Longrightarrow> step E S (Running p) (Exited c)"
| step_outside:
    "step E S (Running p) (Running (p\<lparr>p_world := (p_world p)\<lparr>w_net := n\<rparr>\<rparr>))"

inductive_cases step_RunningE: "step E S (Running p) st"
inductive_cases step_ExitedE: "step E S (Exited c) st"
inductive_cases step_CrashedE: "step E S Crashed st"
inductive_simps step_to_Crashed: "step E S (Running p) Crashed"

text \<open>The program exits only for a signal, with status 0 or 1, and a program that has ended stays so.\<close>

lemma exit_status: "step E S (Running p) (Exited c) \<Longrightarrow> c = 0 \<or> c = 1"
  by (elim step_RunningE) (auto simp: handle_signal_def split: signal.splits prod.splits option.splits)

lemma ended_final: "(step E S)\<^sup>*\<^sup>* st st' \<Longrightarrow> st = Exited c \<or> st = Crashed \<Longrightarrow> st' = st"
  by (induction rule: rtranclp_induct) (auto elim: step_ExitedE step_CrashedE)

text \<open>The states the program can reach after it was started.\<close>

inductive reachable :: "('s \<Rightarrow> bool) \<Rightarrow> ('s \<Rightarrow> 's \<Rightarrow> bool) \<Rightarrow> 's \<Rightarrow> bool" for init trans where
  reach_init: "init s \<Longrightarrow> reachable init trans s"
| reach_step: "reachable init trans s \<Longrightarrow> trans s s' \<Longrightarrow> reachable init trans s'"

locale invariant_system =
  fixes init :: "'s \<Rightarrow> bool"
    and trans :: "'s \<Rightarrow> 's \<Rightarrow> bool"
    and inv :: "'s \<Rightarrow> bool"
  assumes inv_init: "init s \<Longrightarrow> inv s"
    and inv_step: "inv s \<Longrightarrow> trans s s' \<Longrightarrow> inv s'"
begin

lemma reachable_inv: "reachable init trans s \<Longrightarrow> inv s"
  by (induction rule: reachable.induct) (auto intro: inv_init inv_step)

lemma path_inv: "trans\<^sup>*\<^sup>* s s' \<Longrightarrow> inv s \<Longrightarrow> inv s'"
  by (induction rule: rtranclp_induct) (auto intro: inv_step)

end


section \<open>The invariant of the program\<close>

definition sent_ok :: "dnslib \<Rightarrow> (net_addr \<times> Msg) list \<Rightarrow> bool" where
  "sent_ok L sent \<longleftrightarrow> (\<forall>(remote, m) \<in> set sent. Network remote \<noteq> ''tcp'' \<longrightarrow> fits L m)"

text \<open>
  The cache: its entries point to messages; and where the upstream servers repeat the question in
  their replies, which neither they nor the client guarantee, every cached message has one.
\<close>

definition cache_ok :: "'n env \<Rightarrow> 'n world \<Rightarrow> bool" where
  "cache_ok E w \<longleftrightarrow> refs_ok w \<and> (question_echoed (Exchange E) \<longrightarrow> world_ok w)"

fun state_ok :: "'n env \<Rightarrow> 'n pstate \<Rightarrow> bool" where
  "state_ok E (Running p) \<longleftrightarrow>
     store_ok (w_records (p_world p)) \<and> cache_ok E (p_world p) \<and> sent_ok (dlib E) (w_sent (p_world p)) \<and>
     upstreamServers (forwarder (p_handler p)) \<noteq> []"
| "state_ok E (Exited c) \<longleftrightarrow> True"
| "state_ok E Crashed \<longleftrightarrow> True"

definition env_ok :: "'n env \<Rightarrow> bool" where
  "env_ok E \<longleftrightarrow> dns_contract (dlib E) \<and> never_nil (Exchange E)"

lemma cache_ok_empty: "w_cache w = Map.empty \<Longrightarrow> cache_ok E w"
  by (simp add: cache_ok_def refs_ok_def world_ok_def)

lemma cache_ok_simps [simp]:
  "cache_ok E (w\<lparr>w_net := n\<rparr>) = cache_ok E w" "cache_ok E (w\<lparr>w_filter := f\<rparr>) = cache_ok E w"
  by (simp_all add: cache_ok_def refs_ok_def world_ok_def)

lemma cache_ok_cong: "w_heap w' = w_heap w \<Longrightarrow> w_cache w' = w_cache w \<Longrightarrow> cache_ok E w' = cache_ok E w"
  by (simp add: cache_ok_def refs_ok_def world_ok_def)

definition started ::
    "'n env \<Rightarrow> 'n osenv \<Rightarrow> 't cfgenv \<Rightarrow> (string \<Rightarrow> goerror option) \<Rightarrow> (string \<Rightarrow> goerror + string) \<Rightarrow> 'n pstate \<Rightarrow> bool" where
  "started E S V open_log open_append st \<longleftrightarrow>
     (\<exists>n p. run_start (dlib E) S V open_log open_append n = Started p \<and> st = Running p)"

lemma loadRecords_frame:
  "loadRecords S path w = (err, w') \<Longrightarrow>
     w_heap w' = w_heap w \<and> w_cache w' = w_cache w \<and> w_filter w' = w_filter w \<and> w_net w' = w_net w \<and> w_sent w' = w_sent w"
  by (auto simp: loadRecords_def split: if_splits prod.splits)

lemma loadRecords_store_ok: "loadRecords S path w = (err, w') \<Longrightarrow> store_ok (w_records w) \<Longrightarrow> store_ok (w_records w')"
  using LoadFromFile_ok [of "w_records w" "\<lambda>p. OpenFile S p (w_net w)" path]
  by (auto simp: loadRecords_def split: if_splits prod.splits)

lemma run_start_ok:
  assumes "run_start L S V open_log open_append n = Started p"
  shows "store_ok (w_records (p_world p))" "w_cache (p_world p) = Map.empty" "w_sent (p_world p) = []"
    "upstreamServers (forwarder (p_handler p)) \<noteq> []"
proof -
  let ?w0 = "\<lparr>w_records = Map.empty, w_heap = [], w_cache = Map.empty, w_filter = None, w_net = n, w_sent = []\<rparr>"
  obtain cfg w1 flt ticking n' srv hdl cache where
    cfg: "config_Setup V = Inr cfg" and w1: "loadRecords S (ResolveFrom (cRecords cfg)) ?w0 = (None, w1)"
    and srv: "server_New (Listen (cServer cfg)) (Servers (cUpstream cfg)) = (srv, hdl, cache)"
    and p: "p = \<lparr>p_cfg = cfg, p_server = srv, p_handler = hdl, p_ticker = ticking,
      p_world = w1\<lparr>w_cache := cache, w_filter := flt, w_net := n'\<rparr>\<rparr>"
    using assms by (auto simp: run_start_def Let_def split: sum.splits option.splits prod.splits)
  show "store_ok (w_records (p_world p))" using loadRecords_store_ok [OF w1] by (simp add: p)
  have "cache = Map.empty" using srv by (simp add: server_New_def cache_New_def Let_def)
  then show "w_cache (p_world p) = Map.empty" "w_sent (p_world p) = []"
    using loadRecords_frame [OF w1] by (simp_all add: p)
  show "upstreamServers (forwarder (p_handler p)) \<noteq> []"
    using config_Setup_upstreams [OF cfg] srv by (auto simp: p server_New_def handler_New_def forward_New_def Let_def)
qed

lemma handle_signal_ok:
  assumes "handle_signal S cfg s w = Continue w'" "store_ok (w_records w)" "cache_ok E w"
  shows "store_ok (w_records w') \<and> cache_ok E w' \<and> w_sent w' = w_sent w"
proof -
  obtain err w1 where w1: "loadRecords S (ResolveFrom (cRecords cfg)) w = (err, w1)" by (metis prod.exhaust)
  then have "w' = w1 \<or> w' = ClearCache w1"
    using assms(1) by (auto simp: handle_signal_def split: signal.splits option.splits)
  then show ?thesis
    using loadRecords_frame [OF w1] loadRecords_store_ok [OF w1 assms(2)] assms(3) cache_ok_cong [of w1 w E]
    by (auto simp: ClearCache_def cache_Clear_def intro: cache_ok_empty)
qed

lemma serves_cache_ok:
  assumes "env_ok E" "upstreamServers (forwarder h) \<noteq> []" "cache_ok E w" "serves E h remote req w w'"
  shows "cache_ok E w'"
proof -
  have "world_ok w'" if "question_echoed (Exchange E)"
    using serves_world_ok [OF _ _ _ assms(4)] that assms(1-3)
    by (auto simp: env_ok_def cache_ok_def upstream_ok_def upstream_live_def)
  then show ?thesis using serves_refs_ok [OF _ assms(4)] assms(3) by (simp add: cache_ok_def)
qed

lemma request_ok:
  assumes "env_ok E" "state_ok E (Running p)"
    "HandleDNSRequest E (p_handler p) remote req (p_world p) = Some (Return w)"
  shows "state_ok E (Running (p\<lparr>p_world := w\<rparr>))"
proof -
  have c: "dns_contract (dlib E)" using assms(1) by (simp add: env_ok_def)
  have sv: "serves E (p_handler p) remote req (p_world p) w" by (rule serves_complete [OF assms(3)])
  have "cache_ok E w" using serves_cache_ok [OF assms(1) _ _ sv] assms(2) by simp
  moreover have "w_records w = w_records (p_world p)" using sv by cases auto
  moreover have "sent_ok (dlib E) (w_sent w)"
    using serves_sent [OF c sv] assms(2) by (auto simp: sent_ok_def)
  ultimately show ?thesis using assms(2) by simp
qed

lemma step_ok:
  assumes "env_ok E" "state_ok E st" "step E S st st'"
  shows "state_ok E st'"
  using assms(3)
proof cases
  case (step_request p remote req w)
  then show ?thesis using request_ok [OF assms(1)] assms(2) by blast
next
  case (step_signal p s w)
  then show ?thesis using handle_signal_ok [OF step_signal(3), of E] assms(2) by simp
qed (use assms(2) in auto)

interpretation service: invariant_system "started E S V open_log open_append" "step E S" "\<lambda>st. env_ok E \<longrightarrow> state_ok E st"
  for E S V open_log open_append
proof unfold_locales
  show "env_ok E \<longrightarrow> state_ok E st" if st: "started E S V open_log open_append st" for st
  proof -
    obtain n p where "run_start (dlib E) S V open_log open_append n = Started p" "st = Running p"
      using st by (auto simp: started_def)
    then show ?thesis using run_start_ok [of "dlib E" S V open_log open_append n p] cache_ok_empty [of "p_world p" E]
      by (simp add: sent_ok_def)
  qed
  show "env_ok E \<longrightarrow> state_ok E st'" if "env_ok E \<longrightarrow> state_ok E st" "step E S st st'" for st st'
    using that step_ok by blast
qed

text \<open>What a state that is reached came from, and how the program can crash.\<close>

lemma crash_origin:
  assumes "reachable (started E S V open_log open_append) (step E S) Crashed"
  obtains p where "reachable (started E S V open_log open_append) (step E S) (Running p)" "step E S (Running p) Crashed"
  using assms
proof (cases rule: reachable.cases)
  case reach_init
  then show thesis by (simp add: started_def)
next
  case (reach_step s)
  from reach_step(2) obtain p where "s = Running p" by cases auto
  with reach_step that show thesis by blast
qed

lemma step_Crashed_iff:
  assumes "env_ok E" "state_ok E (Running p)"
  shows "step E S (Running p) Crashed \<longleftrightarrow> (\<exists>remote req. panics_on E remote req (p_world p))"
proof -
  have "upstream_live E (p_handler p)" using assms by (simp add: env_ok_def upstream_live_def)
  from HandleDNSRequest_panic_iff [OF this] show ?thesis by (simp add: step_to_Crashed)
qed

text \<open>
  C1: What the program keeps, and the one way it can crash. In every state it can reach from a
  successful start, through any sequence of requests, list refreshes, signals and changes of the outside
  world, the record store is well formed, every cache entry points to a message, every reply sent over UDP
  so far was small enough and there is an upstream server. It can crash in such a state exactly when there
  is a cache entry that has expired and whose message has no question, under the key of a name without local
  record that is not blocked: a query for that name does it, and nothing else can. A program that has crashed was in such
  a state before. The hypotheses are on the DNS library and on its client, which gives a message or an error.
\<close>

theorem service_safe:
  assumes "dns_contract (dlib E)" and "never_nil (Exchange E)"
    and "reachable (started E S V open_log open_append) (step E S) st"
  shows "(\<forall>p. st = Running p \<longrightarrow>
       store_ok (w_records (p_world p)) \<and> refs_ok (p_world p) \<and> sent_ok (dlib E) (w_sent (p_world p)) \<and>
       upstreamServers (forwarder (p_handler p)) \<noteq> [] \<and>
       (step E S st Crashed \<longleftrightarrow> (\<exists>remote req. panics_on E remote req (p_world p)))) \<and>
    (st = Crashed \<longrightarrow> (\<exists>p remote req. reachable (started E S V open_log open_append) (step E S) (Running p) \<and>
       panics_on E remote req (p_world p)))"
proof -
  have env: "env_ok E" using assms(1,2) by (simp add: env_ok_def)
  have ok: "state_ok E st'" if "reachable (started E S V open_log open_append) (step E S) st'" for st'
    using service.reachable_inv [OF that] env by blast
  have "\<exists>p remote req. reachable (started E S V open_log open_append) (step E S) (Running p) \<and> panics_on E remote req (p_world p)"
    if "st = Crashed"
    using crash_origin [OF assms(3) [unfolded that]] ok step_Crashed_iff [OF env] by metis
  moreover have "store_ok (w_records (p_world p)) \<and> refs_ok (p_world p) \<and> sent_ok (dlib E) (w_sent (p_world p)) \<and>
      upstreamServers (forwarder (p_handler p)) \<noteq> [] \<and>
      (step E S st Crashed \<longleftrightarrow> (\<exists>remote req. panics_on E remote req (p_world p)))" if "st = Running p" for p
  proof -
    have "state_ok E (Running p)" using ok [OF assms(3)] that by simp
    with step_Crashed_iff [OF env this, of S] that show ?thesis by (simp add: cache_ok_def)
  qed
  ultimately show ?thesis by blast
qed

text \<open>With upstream servers that repeat the question there is no such state.\<close>

lemma service_never_crashes:
  assumes "env_ok E" "question_echoed (Exchange E)" "reachable (started E S V open_log open_append) (step E S) st"
  shows "st \<noteq> Crashed"
proof
  assume "st = Crashed"
  with assms(3) obtain p where p: "reachable (started E S V open_log open_append) (step E S) (Running p)"
    "step E S (Running p) Crashed" by (blast elim: crash_origin)
  have "state_ok E (Running p)" using service.reachable_inv [OF p(1)] assms(1) by blast
  then show False
    using p(2) step_Crashed_iff [OF assms(1), of p S] world_ok_not_poisoned [of "p_world p" E] assms(2)
    by (auto simp: cache_ok_def panics_on_def)
qed

text \<open>A start for concrete runs: a configuration without filter and records, on a machine without files.\<close>

definition idle_os :: "nat osenv" where
  "idle_os = \<lparr>MkdirAll = (\<lambda>d n. (None, n)), ReadFile = (\<lambda>p n. Inl ''no such file''),
     WriteFile = (\<lambda>p d n. (Some ''read-only'', n)), OpenFile = (\<lambda>p n. Inl ''no such file''),
     NewRequest = (\<lambda>u. None), HttpDo = (\<lambda>req n. (Inl ''no route to host'', n))\<rparr>"

definition sample_cfgenv :: "unit cfgenv" where
  "sample_cfgenv = \<lparr>Getenv = (\<lambda>k. []),
     ReadInConfig = (\<lambda>p d. Inr \<lparr>Unmarshal = Inr sample_config, GetStringMap = [], GetUpdateInterval = []\<rparr>),
     Decode = (\<lambda>t. Inl ''no list''),
     Services = (\<lambda>s. Inl ''unknown port''), Stat = (\<lambda>p. None)\<rparr>"

lemma sample_setup: "config_Setup sample_cfgenv = Inr (sample_config\<lparr>cUpstream := \<lparr>Servers = [''9.9.9.9:53'']\<rparr>\<rparr>)"
proof -
  have "sample_config\<lparr>cFiltering := (cFiltering sample_config)\<lparr>fLists := [], fUpdateInterval := 0\<rparr>\<rparr> = sample_config"
    by (simp add: sample_config_def)
  then show ?thesis
    using sample_config_valid
    by (simp add: config_Setup_def loadConfig_def sample_cfgenv_def parseListConfigs_def parseDuration_def)
qed

lemma sample_run_start: "\<exists>p. run_start sample_lib idle_os sample_cfgenv (\<lambda>p. None) (\<lambda>p. Inr []) n = Started p"
  by (simp add: run_start_def sample_setup sample_config_def logger_Setup_def loadRecords_def start_filter_def Let_def
      server_New_def)

theorem service_safe_witness:
  "\<exists>p. run_start sample_lib idle_os sample_cfgenv (\<lambda>p. None) (\<lambda>p. Inr []) 0 = Started p \<and>
     \<not> step (sample_env Map.empty) idle_os (Running p) Crashed \<and> upstreamServers (forwarder (p_handler p)) \<noteq> []"
proof -
  obtain p where p: "run_start sample_lib idle_os sample_cfgenv (\<lambda>p. None) (\<lambda>p. Inr []) 0 = Started p"
    using sample_run_start by blast
  then have r: "reachable (started (sample_env Map.empty) idle_os sample_cfgenv (\<lambda>p. None) (\<lambda>p. Inr []))
      (step (sample_env Map.empty) idle_os) (Running p)"
    by (intro reach_init) (auto simp: started_def)
  have "\<not> panics_on (sample_env Map.empty) remote req (p_world p)" for remote req
    using run_start_ok(2) [OF p] by (auto simp: panics_on_def poisoned_def)
  then show ?thesis
    using service_safe [OF _ _ r] p by (auto simp: sample_lib_contract sample_exchanger_ok)
qed

section \<open>The configuration of the running program\<close>

text \<open>What holds between the configuration of a program and its parts.\<close>

definition filter_configured :: "(string \<Rightarrow> goerror + string) \<Rightarrow> Config \<Rightarrow> Filter \<Rightarrow> bool" where
  "filter_configured open_append cfg f \<longleftrightarrow>
     enabled f \<and>
     blockSubdomains f = fBlockSubdomains (cFiltering cfg) \<and>
     allowlistPath f = AllowPath (fAllowlist (cFiltering cfg)) \<and>
     sources f = BuildSources Catalog (fLists (cFiltering cfg)) (CustomList (fCustom (cFiltering cfg))) \<and>
     cacheDir f = fCacheDir (cFiltering cfg) \<and>
     updateInterval f = fUpdateInterval (cFiltering cfg) \<and>
     errorLimit f = BlocklistErrorLimit (cLogging cfg) \<and>
     (case (fBlockedLog (cFiltering cfg), open_append (fBlockedLog (cFiltering cfg))) of
        (_ # _, Inr content) \<Rightarrow> \<exists>lines. blocked_logger f = Some \<lparr>bl_file = Some (content @ lines)\<rparr>
      | _ \<Rightarrow> blocked_logger f = None)"

definition configured :: "'t cfgenv \<Rightarrow> (string \<Rightarrow> goerror + string) \<Rightarrow> 'n program \<Rightarrow> bool" where
  "configured V open_append p \<longleftrightarrow>
     config_Setup V = Inr (p_cfg p) \<and>
     srv_server (p_server p) = \<lparr>ServerAddr = Listen (cServer (p_cfg p)), ServerNet = ''udp'', UDPSize = 65535\<rparr> \<and>
     srv_tcpServer (p_server p) = \<lparr>ServerAddr = Listen (cServer (p_cfg p)), ServerNet = ''tcp'', UDPSize = 0\<rparr> \<and>
     upstreamServers (forwarder (p_handler p)) = Servers (cUpstream (p_cfg p)) \<and>
     (\<forall>addr \<in> insert (Listen (cServer (p_cfg p))) (set (Servers (cUpstream (p_cfg p)))). address_ok (Services V) addr) \<and>
     (case w_filter (p_world p) of
        None \<Rightarrow> \<not> fEnabled (cFiltering (p_cfg p))
      | Some f \<Rightarrow> fEnabled (cFiltering (p_cfg p)) \<and> filter_configured open_append (p_cfg p) f) \<and>
     (p_ticker p \<longleftrightarrow> fEnabled (cFiltering (p_cfg p)) \<and> fUpdateInterval (cFiltering (p_cfg p)) > 0)"

fun running_configured :: "'t cfgenv \<Rightarrow> (string \<Rightarrow> goerror + string) \<Rightarrow> 'n pstate \<Rightarrow> bool" where
  "running_configured V open_append (Running p) \<longleftrightarrow> configured V open_append p"
| "running_configured V open_append (Exited c) \<longleftrightarrow> True"
| "running_configured V open_append Crashed \<longleftrightarrow> True"

text \<open>The settings of a filter do not depend on its lists, and its log only grows.\<close>

lemma filter_configured_new:
  "fEnabled (cFiltering cfg) \<Longrightarrow> filter_configured open_append cfg (NewFilter open_append (filter_options cfg))"
  by (auto simp: filter_configured_def NewFilter_def filter_options_def newBlockedLogger_def Let_def
      split: list.splits sum.splits)

lemma filter_configured_lists:
  "filter_configured open_append cfg (f\<lparr>blocklist := bl, allowlist := al\<rparr>) = filter_configured open_append cfg f"
  by (auto simp: filter_configured_def split: list.splits sum.splits)

lemma LoadOnce_lists:
  "Filter_LoadOnce L S f n = (f', logs, n') \<Longrightarrow> \<exists>bl al. f' = f\<lparr>blocklist := bl, allowlist := al\<rparr>"
proof (cases "enabled f")
  case False
  moreover assume "Filter_LoadOnce L S f n = (f', logs, n')"
  ultimately have "f' = f" by (simp add: Filter_LoadOnce_def)
  then show ?thesis by (intro exI [of _ "blocklist f"] exI [of _ "allowlist f"]) simp
qed (auto simp: Filter_LoadOnce_def Let_def split: prod.splits)

lemma LoadOnce_configured:
  assumes "Filter_LoadOnce L S f n = (f', logs, n')"
  shows "filter_configured open_append cfg f' = filter_configured open_append cfg f"
  using LoadOnce_lists [OF assms] filter_configured_lists by metis

lemma LogBlocked_configured:
  assumes "filter_configured open_append cfg f"
  shows "\<exists>f'. LogBlocked L now (Some f) addr name qtype = Some f' \<and> filter_configured open_append cfg f'"
  using assms
  by (auto simp: LogBlocked_def blockedLogger_Log_def filter_configured_def split: option.splits list.splits sum.splits)

lemma start_filter_configured:
  assumes "start_filter L S open_append cfg n = (flt, ticking, n')"
  shows "(case flt of None \<Rightarrow> \<not> fEnabled (cFiltering cfg)
      | Some f \<Rightarrow> fEnabled (cFiltering cfg) \<and> filter_configured open_append cfg f) \<and>
    (ticking \<longleftrightarrow> fEnabled (cFiltering cfg) \<and> fUpdateInterval (cFiltering cfg) > 0)"
proof (cases "fEnabled (cFiltering cfg)")
  case True
  let ?f = "NewFilter open_append (filter_options cfg)"
  obtain f' logs n2 where ld: "Filter_LoadOnce L S ?f n = (f', logs, n2)" by (metis prod.exhaust)
  have f': "filter_configured open_append cfg f'" using LoadOnce_configured [OF ld] filter_configured_new [OF True] by simp
  have "enabled ?f" using True by (simp add: NewFilter_def filter_options_def Let_def)
  then have "flt = Some f' \<and> ticking = (updateInterval f' > 0)"
    using assms True ld by (auto simp: start_filter_def Filter_Start_def)
  with f' True show ?thesis by (auto simp: filter_configured_def)
qed (use assms in \<open>auto simp: start_filter_def\<close>)

lemma run_start_configured:
  assumes "run_start L S V open_log open_append n = Started p"
  shows "configured V open_append p"
proof -
  obtain cfg w1 flt ticking n' srv hdl cache where cfg: "config_Setup V = Inr cfg"
    and flt: "start_filter L S open_append cfg (w_net w1) = (flt, ticking, n')"
    and srv: "server_New (Listen (cServer cfg)) (Servers (cUpstream cfg)) = (srv, hdl, cache)"
    and p: "p = \<lparr>p_cfg = cfg, p_server = srv, p_handler = hdl, p_ticker = ticking,
      p_world = w1\<lparr>w_cache := cache, w_filter := flt, w_net := n'\<rparr>\<rparr>"
    using assms by (auto simp: run_start_def Let_def split: sum.splits option.splits prod.splits)
  show ?thesis
    using config_Setup_addresses [OF cfg] start_filter_configured [OF flt] srv cfg
    by (cases flt) (auto simp: configured_def p server_New_def handler_New_def forward_New_def Let_def)
qed

lemma request_filter_kept:
  assumes "HandleDNSRequest E h remote req w = Some (Return w')"
  shows "w_filter w' = w_filter w \<or> (\<exists>now addr name qtype. w_filter w' = LogBlocked (dlib E) now (w_filter w) addr name qtype)"
  using serves_complete [OF assms] by cases auto

lemma signal_filter_kept:
  assumes "handle_signal S cfg s w = Continue w'"
  shows "w_filter w' = w_filter w"
proof -
  obtain err w1 where w1: "loadRecords S (ResolveFrom (cRecords cfg)) w = (err, w1)" by (metis prod.exhaust)
  then have "w' = w1 \<or> w' = ClearCache w1"
    using assms by (auto simp: handle_signal_def split: signal.splits option.splits)
  then show ?thesis using loadRecords_frame [OF w1] by (auto simp: ClearCache_def)
qed

lemma request_configured:
  assumes "configured V open_append p" "HandleDNSRequest E (p_handler p) remote req (p_world p) = Some (Return w)"
  shows "configured V open_append (p\<lparr>p_world := w\<rparr>)"
proof (cases "w_filter (p_world p)")
  case None
  then have "w_filter w = None" using request_filter_kept [OF assms(2)] by (auto simp: LogBlocked_def)
  with None assms(1) show ?thesis by (simp add: configured_def)
next
  case (Some f)
  then have "filter_configured open_append (p_cfg p) f" using assms(1) by (simp add: configured_def)
  then obtain f' where "w_filter w = Some f'" "filter_configured open_append (p_cfg p) f'"
    using request_filter_kept [OF assms(2)] LogBlocked_configured [of open_append "p_cfg p" f] Some by metis
  with Some assms(1) show ?thesis by (simp add: configured_def)
qed

lemma step_configured:
  assumes "running_configured V open_append st" "step E S st st'"
  shows "running_configured V open_append st'"
  using assms(2)
proof cases
  case (step_request p remote req w)
  then show ?thesis using request_configured assms(1) by auto
next
  case (step_refresh p f f' logs n)
  then show ?thesis using assms(1) LoadOnce_configured [OF step_refresh(5)] by (simp add: configured_def)
next
  case (step_signal p s w)
  then show ?thesis
    using assms(1) signal_filter_kept [OF step_signal(3)] by (auto simp: configured_def split: option.splits)
qed (use assms(1) in \<open>auto simp: configured_def split: option.splits\<close>)

interpretation configuration: invariant_system "started E S V open_log open_append" "step E S" "running_configured V open_append"
  for E S V open_log open_append
proof unfold_locales
  show "running_configured V open_append st" if "started E S V open_log open_append st" for st
    using that run_start_configured by (auto simp: started_def)
qed (rule step_configured)

text \<open>
  C17: Throughout its run the program listens, forwards and filters as its validated configuration says: both
  listeners are on the configured address, the forwarder has exactly the configured upstream
  servers, every one of these addresses is an IP address with a valid port, and there is
  a filter and a refresh loop exactly when the configuration asks for them. The filter has the
  configured treatment of subdomains, allow list, sources, cache directory, interval and error limit, and its log is
  the configured file with what it held at the start and lines added to it.
\<close>

theorem running_program_configured:
  assumes "reachable (started E S V open_log open_append) (step E S) (Running p)"
  shows "configured V open_append p"
  using configuration.reachable_inv [OF assms] by simp

text \<open>A configuration with filtering for concrete runs.\<close>

definition filtering_config :: "int \<Rightarrow> string list \<Rightarrow> Config" where
  "filtering_config d ups = sample_config\<lparr>cUpstream := \<lparr>Servers = ups\<rparr>,
     cFiltering := \<lparr>fEnabled = True, fCacheDir = ''/c'', fUpdateInterval = d, fBlockedLog = ''b.log'', fBlockSubdomains = True,
       fAllowlist = \<lparr>AllowPath = ''allow.txt''\<rparr>, fCustom = \<lparr>CustomList = [''custom.txt'']\<rparr>, fLists = []\<rparr>\<rparr>"

definition filtering_cfgenv :: "unit cfgenv" where
  "filtering_cfgenv = sample_cfgenv\<lparr>ReadInConfig := (\<lambda>p d. Inr \<lparr>Unmarshal = Inr (filtering_config 0 [''9.9.9.9:53'']),
     GetStringMap = [], GetUpdateInterval = ''1h30m''\<rparr>)\<rparr>"

lemma filtering_setup: "config_Setup filtering_cfgenv = Inr (filtering_config 5400000000000 [''9.9.9.9:53''])"
proof -
  have d: "parseDuration ''1h30m'' = Inr 5400000000000"
    using parseDuration_units [OF sample_units(1)] unfolding sample_units(2,3) by simp
  have "(filtering_config 0 ups)\<lparr>cFiltering := (cFiltering (filtering_config 0 ups))\<lparr>fLists := [], fUpdateInterval := d\<rparr>\<rparr> =
      filtering_config d ups" for d ups
    by (simp add: filtering_config_def)
  moreover have "ParseUpstream ''9.9.9.9:53'' = ''9.9.9.9:53''" "ValidateLogLevel ''INFO'' = None" by code_simp+
  then have "validateConfig (\<lambda>s. Inl ''unknown port'') (\<lambda>p. None) (filtering_config d [''9.9.9.9:53'']) =
      Inr (filtering_config d [''9.9.9.9:53''])" for d
    by (simp add: validateConfig_def filtering_config_def sample_config_def sample_addresses)
  ultimately show ?thesis
    using d by (simp add: config_Setup_def loadConfig_def filtering_cfgenv_def sample_cfgenv_def parseListConfigs_def)
qed

lemma filtering_start:
  obtains p where "run_start sample_lib idle_os filtering_cfgenv (\<lambda>p. None) (\<lambda>p. Inr []) 0 = Started p"
    "p_cfg p = filtering_config 5400000000000 [''9.9.9.9:53'']"
    "reachable (started (sample_env Map.empty) idle_os filtering_cfgenv (\<lambda>p. None) (\<lambda>p. Inr []))
       (step (sample_env Map.empty) idle_os) (Running p)"
proof -
  obtain flt ticking n' where "start_filter sample_lib idle_os (\<lambda>p. Inr [])
      (filtering_config 5400000000000 [''9.9.9.9:53'']) 0 = (flt, ticking, n')"
    by (metis prod.exhaust)
  then obtain p where p: "run_start sample_lib idle_os filtering_cfgenv (\<lambda>p. None) (\<lambda>p. Inr []) 0 = Started p"
    "p_cfg p = filtering_config 5400000000000 [''9.9.9.9:53'']"
    by (auto simp: run_start_def filtering_setup filtering_config_def sample_config_def logger_Setup_def loadRecords_def Let_def
        server_New_def split: prod.splits)
  moreover have "reachable (started (sample_env Map.empty) idle_os filtering_cfgenv (\<lambda>p. None) (\<lambda>p. Inr []))
       (step (sample_env Map.empty) idle_os) (Running p)"
    by (rule reach_init) (use p in \<open>auto simp: started_def\<close>)
  ultimately show thesis by (rule that)
qed

theorem running_program_configured_witness:
  "\<exists>p f. run_start sample_lib idle_os filtering_cfgenv (\<lambda>p. None) (\<lambda>p. Inr []) 0 = Started p \<and> p_ticker p \<and>
     w_filter (p_world p) = Some f \<and> blockSubdomains f \<and> allowlistPath f = ''allow.txt'' \<and> cacheDir f = ''/c'' \<and>
     sources f = BuildSources Catalog [] [''custom.txt''] \<and> (\<exists>lines. blocked_logger f = Some \<lparr>bl_file = Some lines\<rparr>)"
proof -
  obtain p where p: "run_start sample_lib idle_os filtering_cfgenv (\<lambda>p. None) (\<lambda>p. Inr []) 0 = Started p"
    "p_cfg p = filtering_config 5400000000000 [''9.9.9.9:53'']"
    and r: "reachable (started (sample_env Map.empty) idle_os filtering_cfgenv (\<lambda>p. None) (\<lambda>p. Inr []))
       (step (sample_env Map.empty) idle_os) (Running p)"
    by (rule filtering_start)
  from running_program_configured [OF r] p show ?thesis
    by (auto simp: configured_def filter_configured_def filtering_config_def split: option.splits)
qed

text \<open>
  C37: From the text in the configuration file to the refresh loop: when the update interval is written in whole
  units, such as \<^verbatim>\<open>1h30m\<close>, and its parts add up to a number of nanoseconds that fits a duration, then throughout the run
  the configuration and the filter hold exactly that sum, and lists are refreshed exactly when
  filtering is on and the sum is positive; an empty text stands for zero and turns refreshing off.
\<close>

theorem refresh_interval_configured:
  assumes "reachable (started E S V open_log open_append) (step E S) (Running p)"
    and "ReadInConfig V (config_path V) setDefaults = Inr v" and "GetUpdateInterval v = render_units us"
    and "known_units us" and "units_length us < 2 ^ 63"
  shows "fUpdateInterval (cFiltering (p_cfg p)) = units_length us \<and>
    (\<forall>f. w_filter (p_world p) = Some f \<longrightarrow> updateInterval f = units_length us) \<and>
    (p_ticker p \<longleftrightarrow> fEnabled (cFiltering (p_cfg p)) \<and> 0 < units_length us)"
proof -
  have c: "configured V open_append p" using configuration.reachable_inv [OF assms(1)] by simp
  have "parseDuration (GetUpdateInterval v) = Inr (units_length us)"
    unfolding assms(3) by (rule parseDuration_units [OF assms(4,5)])
  then have "fUpdateInterval (cFiltering (p_cfg p)) = units_length us"
    using config_Setup_interval [OF _ assms(2)] c by (simp add: configured_def)
  then show ?thesis using c by (auto simp: configured_def filter_configured_def split: option.splits)
qed

theorem refresh_interval_configured_witness:
  "\<exists>p. run_start sample_lib idle_os filtering_cfgenv (\<lambda>p. None) (\<lambda>p. Inr []) 0 = Started p \<and> p_ticker p \<and>
     fUpdateInterval (cFiltering (p_cfg p)) = 5400000000000"
proof -
  obtain p where p: "run_start sample_lib idle_os filtering_cfgenv (\<lambda>p. None) (\<lambda>p. Inr []) 0 = Started p"
    "p_cfg p = filtering_config 5400000000000 [''9.9.9.9:53'']"
    and r: "reachable (started (sample_env Map.empty) idle_os filtering_cfgenv (\<lambda>p. None) (\<lambda>p. Inr []))
       (step (sample_env Map.empty) idle_os) (Running p)"
    by (rule filtering_start)
  have "ReadInConfig filtering_cfgenv (config_path filtering_cfgenv) setDefaults =
      Inr \<lparr>Unmarshal = Inr (filtering_config 0 [''9.9.9.9:53'']), GetStringMap = [], GetUpdateInterval = ''1h30m''\<rparr>"
    by (simp add: filtering_cfgenv_def)
  from refresh_interval_configured [OF r this, of "[(1, ''h''), (30, ''m'')]", unfolded sample_units(2,3)] sample_units(1) p
  show ?thesis by (simp add: filtering_config_def)
qed

section \<open>Reloading the records\<close>

lemma sighup_cases:
  assumes "loadRecords S (ResolveFrom (cRecords cfg)) w = (err, w1)"
  shows "handle_signal S cfg SIGHUP w = Continue (if err = None then ClearCache w1 else w1)"
  using assms by (cases err) (simp_all add: handle_signal_def)

text \<open>
  C18: A hangup signal reloads the records and nothing else. When the reload succeeds the cache is
  cleared, so no reply from before it is found again, at any time and under any key; when it
  fails the cache is left as it was. The lists, the replies sent so far and the messages in
  memory are not touched.
\<close>

theorem sighup_reload:
  assumes "ResolveFrom (cRecords cfg) \<noteq> []"
    and "LoadFromFile (\<lambda>p. OpenFile S p (w_net w)) (w_records w) (ResolveFrom (cRecords cfg)) = (recs, warnings, err)"
  shows "\<exists>w'. handle_signal S cfg SIGHUP w = Continue w' \<and> w_records w' = recs \<and>
    (err = None \<longrightarrow> (\<forall>now key. cache_hit (w_cache w') now key = None)) \<and>
    (err \<noteq> None \<longrightarrow> w_cache w' = w_cache w) \<and>
    w_filter w' = w_filter w \<and> w_sent w' = w_sent w \<and> w_heap w' = w_heap w"
proof -
  have "loadRecords S (ResolveFrom (cRecords cfg)) w = (err, w\<lparr>w_records := recs\<rparr>)"
    using assms by (simp add: loadRecords_def)
  from sighup_cases [OF this] show ?thesis
    using dnscache.lookup_clear by (auto simp: ClearCache_def)
qed

theorem sighup_reload_witness:
  "\<exists>w'. handle_signal (idle_os\<lparr>OpenFile := (\<lambda>p n. Inr \<lparr>rd_data = [], rd_err = None\<rparr>)\<rparr>)
       (sample_config\<lparr>cRecords := \<lparr>ResolveFrom = ''r.txt''\<rparr>\<rparr>) SIGHUP (sample_world chain_store None) = Continue w' \<and>
     w_records w' = Map.empty"
proof -
  let ?S = "idle_os\<lparr>OpenFile := (\<lambda>p n. Inr \<lparr>rd_data = [], rd_err = None\<rparr>)\<rparr>"
  have "sanitizeRecordsPath ''r.txt'' = Inr ''r.txt''" by code_simp
  then have "LoadFromFile (\<lambda>p. OpenFile ?S p 0) chain_store ''r.txt'' = (Map.empty, [], None)"
    by (simp add: LoadFromFile_def scan_eval)
  then show ?thesis
    using sighup_reload [of "sample_config\<lparr>cRecords := \<lparr>ResolveFrom = ''r.txt''\<rparr>\<rparr>" ?S "sample_world chain_store None"]
    by fastforce
qed

text \<open>
  C19: A reload that fails while the file is read leaves the store with the part that was read and
  the cache with the old replies: a name that has lost its record is still answered from the
  cache, with what the old record said.
\<close>

theorem failed_reload_serves_stale:
  assumes "loadRecords S (ResolveFrom (cRecords cfg)) w = (Some err, w')"
    and "dns_contract (dlib E)" and "Questions r = q # qs"
    and "records_Get (w_records w') (qName q) = None" and "\<not> ShouldBlock (w_filter w) (qName q)"
    and "cache_hit (w_cache w) (Now E (w_net w)) (request_key remote q) = Some ref"
  shows "handle_signal S cfg SIGHUP w = Continue w' \<and>
    (\<exists>w''. HandleDNSRequest E h remote (Some r) w' = Some (Return w'') \<and>
      w_sent w'' = w_sent w @ [(remote, written E remote ((w_heap w ! ref)\<lparr>MsgId := MsgId r, RecursionAvailable := True\<rparr>))])"
proof
  show "handle_signal S cfg SIGHUP w = Continue w'" using sighup_cases [OF assms(1)] by simp
  note fr = loadRecords_frame [OF assms(1)]
  have "no_local (w_records w') (qName q)" using assms(4) by (simp add: no_local_def)
  moreover have "cache_Get (w_heap w') (w_cache w') (Now E (w_net w')) (request_key remote q) = Return (Some ref)"
    using assms(6) fr by (simp add: cache_hit_Get)
  ultimately show "\<exists>w''. HandleDNSRequest E h remote (Some r) w' = Some (Return w'') \<and>
      w_sent w'' = w_sent w @ [(remote, written E remote ((w_heap w ! ref)\<lparr>MsgId := MsgId r, RecursionAvailable := True\<rparr>))]"
    using assms(2,3,5) fr by (simp add: HandleDNSRequest_nonlocal dns_contractD(5))
qed

text \<open>A file that breaks off before its first line, and a cache with a reply of an hour to come.\<close>

definition broken_os :: "nat osenv" where
  "broken_os = idle_os\<lparr>OpenFile := (\<lambda>p n. Inr \<lparr>rd_data = [], rd_err = Some ''read error''\<rparr>)\<rparr>"

definition records_config :: Config where
  "records_config = sample_config\<lparr>cRecords := \<lparr>ResolveFrom = ''r.txt''\<rparr>\<rparr>"

definition cached_world :: "Msg \<Rightarrow> nat world" where
  "cached_world m = (sample_world chain_store None)\<lparr>w_heap := [m],
     w_cache := [cacheKeyFor ''web.local.'' TypeA ''udp'' \<mapsto> \<lparr>EntryMsg = 0, ExpiresAt = 1700003600000000000\<rparr>]\<rparr>"

lemma broken_load:
  "\<exists>err. loadRecords broken_os (ResolveFrom (cRecords records_config)) (cached_world m) =
    (Some err, (cached_world m)\<lparr>w_records := Map.empty\<rparr>)"
proof -
  have "sanitizeRecordsPath ''r.txt'' = Inr ''r.txt''" by code_simp
  then show ?thesis
    by (simp add: loadRecords_def LoadFromFile_def scan_eval broken_os_def records_config_def cached_world_def)
qed

theorem failed_reload_serves_stale_witness:
  "\<exists>w' w''. handle_signal broken_os records_config SIGHUP (cached_world (sample_request ''web.local.'' TypeA)) = Continue w' \<and>
     HandleDNSRequest (sample_env Map.empty) sample_handler sample_client
       (Some (sample_request ''web.local.'' TypeA)) w' = Some (Return w'') \<and>
     w_records w' = Map.empty \<and> length (w_sent w'') = 1"
proof -
  let ?r = "sample_request ''web.local.'' TypeA" and ?q = "\<lparr>qName = ''web.local.'', Qtype = TypeA, Qclass = ClassINET\<rparr>"
  obtain err where err: "loadRecords broken_os (ResolveFrom (cRecords records_config)) (cached_world ?r) =
      (Some err, (cached_world ?r)\<lparr>w_records := Map.empty\<rparr>)"
    using broken_load by blast
  have hit: "cache_hit (w_cache (cached_world ?r)) (Now (sample_env Map.empty) (w_net (cached_world ?r)))
      (request_key sample_client ?q) = Some 0"
    by (simp add: cache_hit_def cached_world_def request_key_def protocol_of_def sample_client_def)
  have flt: "\<not> ShouldBlock (w_filter (cached_world ?r)) (qName ?q)"
    by (simp add: cached_world_def ShouldBlock_def)
  have sent: "w_sent (cached_world ?r) = []" by (simp add: cached_world_def)
  from failed_reload_serves_stale [OF err _ _ _ flt hit, of ?r "[]" sample_handler] sent show ?thesis
    by (auto simp: sample_lib_contract records_Get_empty)
qed

end
