(* ===== verification/Concurrency.thy ===== *)
theory Concurrency
  imports Goroutines Service "HOL-Library.Multiset"
begin

text \<open>
  The running program with all its goroutines: the requests in flight, the signal loop of \<^verbatim>\<open>main.go\<close> and the
  refresh loop of \<^verbatim>\<open>pkg/filtering/filter.go\<close>, which interleave in steps of one access to shared state each.
\<close>

section \<open>The program in small steps\<close>

type_synonym proc = "net_addr \<times> Msg option \<times> phase"

text \<open>The refresh loop stores the block list and the allow list one after the other.\<close>

datatype refresh_phase = TickWait | StoreBlock "DomainSet option" "DomainSet option" | StoreAllow "DomainSet option"

record 'n conc =
  k_world :: "'n world"
  k_procs :: "proc list"
  k_clear :: bool
  k_refresh :: refresh_phase

datatype 'n cstate = Serving "'n conc" | Stopped int | Broken

inductive cstep :: "'n env \<Rightarrow> 'n osenv \<Rightarrow> 'n program \<Rightarrow> 'n cstate \<Rightarrow> 'n cstate \<Rightarrow> bool" for E S p where
  arrive:
    "cstep E S p (Serving c) (Serving (c\<lparr>k_procs := k_procs c @ [(remote, req, Begin)]\<rparr>))"
| proceed:
    "i < length (k_procs c) \<Longrightarrow> k_procs c ! i = (remote, req, ph) \<Longrightarrow> (\<And>m. ph \<noteq> Done m) \<Longrightarrow>
     proc_step E (p_handler p) remote req ph (k_world c) = Return (ph', w') \<Longrightarrow>
     cstep E S p (Serving c) (Serving (c\<lparr>k_world := w', k_procs := (k_procs c)[i := (remote, req, ph')]\<rparr>))"
| panic:
    "i < length (k_procs c) \<Longrightarrow> k_procs c ! i = (remote, req, ph) \<Longrightarrow>
     proc_step E (p_handler p) remote req ph (k_world c) = Panic \<Longrightarrow>
     cstep E S p (Serving c) Broken"
| hangup:
    "\<not> k_clear c \<Longrightarrow> loadRecords S (ResolveFrom (cRecords (p_cfg p))) (k_world c) = (err, w') \<Longrightarrow>
     cstep E S p (Serving c) (Serving (c\<lparr>k_world := w', k_clear := (err = None)\<rparr>))"
| clear:
    "k_clear c \<Longrightarrow> cstep E S p (Serving c) (Serving (c\<lparr>k_world := ClearCache (k_world c), k_clear := False\<rparr>))"
| stop:
    "\<not> k_clear c \<Longrightarrow> handle_signal S (p_cfg p) s (k_world c) = Exit code \<Longrightarrow> cstep E S p (Serving c) (Stopped code)"
| tick:
    "p_ticker p \<Longrightarrow> k_refresh c = TickWait \<Longrightarrow> w_filter (k_world c) = Some f \<Longrightarrow>
     Filter_LoadOnce (dlib E) S f (w_net (k_world c)) = (f', logs, n) \<Longrightarrow>
     cstep E S p (Serving c)
       (Serving (c\<lparr>k_world := (k_world c)\<lparr>w_net := n\<rparr>, k_refresh := StoreBlock (blocklist f') (allowlist f')\<rparr>))"
| store_block:
    "k_refresh c = StoreBlock bl al \<Longrightarrow> w_filter (k_world c) = Some f \<Longrightarrow>
     cstep E S p (Serving c)
       (Serving (c\<lparr>k_world := (k_world c)\<lparr>w_filter := Some (f\<lparr>blocklist := bl\<rparr>)\<rparr>, k_refresh := StoreAllow al\<rparr>))"
| store_allow:
    "k_refresh c = StoreAllow al \<Longrightarrow> w_filter (k_world c) = Some f \<Longrightarrow>
     cstep E S p (Serving c)
       (Serving (c\<lparr>k_world := (k_world c)\<lparr>w_filter := Some (f\<lparr>allowlist := al\<rparr>)\<rparr>, k_refresh := TickWait\<rparr>))"
| outside:
    "cstep E S p (Serving c) (Serving (c\<lparr>k_world := (k_world c)\<lparr>w_net := n\<rparr>\<rparr>))"

text \<open>The program after its start-up, before its first request.\<close>

definition launched :: "'n program \<Rightarrow> 'n cstate \<Rightarrow> bool" where
  "launched p st \<longleftrightarrow> st = Serving \<lparr>k_world = p_world p, k_procs = [], k_clear = False, k_refresh = TickWait\<rparr>"

section \<open>What a step of a request keeps\<close>

text \<open>The reply of a request has its ID, and over UDP it is small enough.\<close>

definition reply_ok :: "dnslib \<Rightarrow> net_addr \<Rightarrow> Msg option \<Rightarrow> Msg \<Rightarrow> bool" where
  "reply_ok L remote req m \<longleftrightarrow>
     (\<forall>r. req = Some r \<longrightarrow> MsgId m = MsgId r) \<and> (Network remote \<noteq> ''tcp'' \<longrightarrow> fits L m)"

text \<open>A message to be cached has the ID of its request; and a question, where the upstream servers repeat it.\<close>

definition cell_ok :: "'n env \<Rightarrow> Msg option \<Rightarrow> Msg \<Rightarrow> bool" where
  "cell_ok E req m \<longleftrightarrow> MsgId m = MsgId (the req) \<and> (question_echoed (Exchange E) \<longrightarrow> Questions m \<noteq> [])"

fun phase_ok :: "'n env \<Rightarrow> net_addr \<Rightarrow> Msg option \<Rightarrow> phase \<Rightarrow> heap \<Rightarrow> bool" where
  "phase_ok E remote req Begin hp \<longleftrightarrow> True"
| "phase_ok E remote req (Ask p m servers e) hp \<longleftrightarrow>
     has_question req \<and> (servers \<noteq> [] \<or> e \<noteq> None) \<and> (p = ForQuery \<longrightarrow> m = the req)"
| "phase_ok E remote req (Publish m) hp \<longleftrightarrow> has_question req \<and> cell_ok E req m"
| "phase_ok E remote req (Writing a) hp \<longleftrightarrow> has_question req \<and> a < length hp \<and> cell_ok E req (hp ! a)"
| "phase_ok E remote req (Cutting a s) hp \<longleftrightarrow>
     has_question req \<and> a < length hp \<and> cell_ok E req (hp ! a) \<and>
     (s > MaxMsgSize \<or> s = MsgLen (dlib E) (hp ! a))"
| "phase_ok E remote req (Fresh m) hp \<longleftrightarrow> has_question req \<and> MsgId m = MsgId (the req)"
| "phase_ok E remote req (Done m) hp \<longleftrightarrow> reply_ok (dlib E) remote req m"
| "phase_ok E remote req ph hp \<longleftrightarrow> has_question req"

text \<open>The object a request is writing, and what a step may do to the objects of others.\<close>

fun owned :: "phase \<Rightarrow> ref set" where
  "owned (Writing a) = {a}"
| "owned (Cutting a s) = {a}"
| "owned ph = {}"

definition heap_step :: "ref set \<Rightarrow> heap \<Rightarrow> heap \<Rightarrow> bool" where
  "heap_step own hp hp' \<longleftrightarrow>
     length hp \<le> length hp' \<and>
     (\<forall>a < length hp. (a \<notin> own \<longrightarrow> hp' ! a = hp ! a) \<and> Questions (hp' ! a) = Questions (hp ! a))"

lemma cell_ok_simps [simp]:
  "cell_ok E req (m\<lparr>Truncated := t\<rparr>) = cell_ok E req m" "cell_ok E req (m\<lparr>Answer := x\<rparr>) = cell_ok E req m"
  "cell_ok E req (m\<lparr>Authoritative := t\<rparr>) = cell_ok E req m"
  by (simp_all add: cell_ok_def)

lemma start_reply_ok: "dns_contract (dlib E) \<Longrightarrow> has_question req \<Longrightarrow> cell_ok E req (start_reply E (the req))"
  by (simp add: cell_ok_def start_reply_def has_question_def contract_simps)

lemma handleA_ok:
  "dns_contract (dlib E) \<Longrightarrow> Questions r \<noteq> [] \<Longrightarrow> cell_ok E (Some r) (handleA E rs r rec)"
  by (simp add: cell_ok_def handleA_def Let_def contract_simps)

lemma error_reply_id: "dns_contract (dlib E) \<Longrightarrow> MsgId (error_reply E r code) = MsgId r"
  by (simp add: error_reply_def contract_simps)

lemma asked_ok:
  assumes "dns_contract (dlib E)" "has_question req" "id_checked (Exchange E)"
    and "p = ForQuery \<longrightarrow> m = the req" "exchange (Exchange E) f s m n = (Inr (Some response), n')"
  shows "cell_ok E req (asked E (the req) p response)"
proof (cases p)
  case (ForTarget ans)
  then show ?thesis using start_reply_ok [OF assms(1,2)] by (simp add: asked_def)
next
  case ForQuery
  have "Questions response \<noteq> []" if "question_echoed (Exchange E)"
    using exchange_satisfies [OF that [unfolded question_echoed_def] assms(5)] assms(2,4) ForQuery
    by (simp add: has_question_def)
  then show ?thesis
    using exchange_satisfies [OF assms(3) [unfolded id_checked_def] assms(5)] assms(4) ForQuery
    by (simp add: asked_def cell_ok_def)
qed

lemma written_reply_ok: "MsgId m = MsgId (the req) \<Longrightarrow> reply_ok (dlib E) remote req (written E remote m)"
  by (auto simp: reply_ok_def written_fits)

definition net_ok :: "'n env \<Rightarrow> bool" where
  "net_ok E \<longleftrightarrow> dns_contract (dlib E) \<and> never_nil (Exchange E) \<and> id_checked (Exchange E)"

lemma net_okD:
  assumes "net_ok E"
  shows "dns_contract (dlib E)" "never_nil (Exchange E)" "id_checked (Exchange E)"
  using assms by (auto simp: net_ok_def)

lemma phase_ok_ask:
  assumes "net_ok E" "phase_ok E remote req (Ask p m ss e) hp"
    "step_ask E h (the req) p m ss e w = Return (ph', w')"
  shows "phase_ok E remote req ph' hp' \<and> w' = w\<lparr>w_net := w_net w'\<rparr> \<and> owned ph' = {} \<and> (\<forall>m. ph' \<noteq> Done m)"
proof (cases ss)
  case Nil
  then show ?thesis
    using assms start_reply_ok [OF net_okD(1) [OF assms(1)]] error_reply_id [OF net_okD(1) [OF assms(1)]]
    by (cases e) (auto simp: gave_up_def split: purpose.splits)
next
  case (Cons s ss')
  then show ?thesis
    using assms asked_ok [of E req p m, OF net_okD(1) [OF assms(1)] _ net_okD(3) [OF assms(1)]]
    by (auto split: prod.splits sum.splits option.splits)
qed

lemma fits_stop: "\<not> (s > MaxMsgSize \<and> 0 < length (Answer m)) \<Longrightarrow> s > MaxMsgSize \<or> s = MsgLen L m \<Longrightarrow> fits L m"
  by (auto simp: fits_def)

lemma phase_ok_step:
  assumes "net_ok E" "upstreamServers (forwarder h) \<noteq> []" "phase_ok E remote req ph (w_heap w)"
    "proc_step E h remote req ph w = Return (ph', w')"
  shows "phase_ok E remote req ph' (w_heap w')"
proof (cases ph)
  case Begin
  then show ?thesis
    using assms handleA_ok [OF net_okD(1) [OF assms(1)]] contract_simps [OF net_okD(1) [OF assms(1)]]
    by (auto simp: step_begin_def has_question_def reply_ok_def format_error_def fits_def Let_def
        split: if_splits option.splits)
next
  case (Chase ans t)
  then show ?thesis
    using assms start_reply_ok [OF net_okD(1) [OF assms(1)]] by (auto simp: step_chase_def split: option.splits if_splits)
next
  case (Ask p m ss e)
  then show ?thesis
    using assms phase_ok_ask [OF assms(1), of remote req p m ss e "w_heap w" h w ph' w' "w_heap w'"] by simp
next
  case (Writing a)
  then show ?thesis using assms
    by (auto simp: step_write_def Let_def reply_ok_def cell_ok_def fits_def split: if_splits)
next
  case (Cutting a s)
  then show ?thesis using assms fits_stop [of s "w_heap w ! a" "dlib E"]
    by (auto simp: step_cut_def Let_def reply_ok_def cell_ok_def split: if_splits)
next
  case (Fresh m)
  then show ?thesis using assms written_reply_ok by auto
qed (use assms error_reply_id [OF net_okD(1) [OF assms(1)]] in
  \<open>auto simp: step_allow_def step_block_def step_cache_def alloc_def cache_Set_put bind_outcome_Return_iff Let_def nth_append
    split: option.splits outcome.splits if_splits\<close>)

lemma cache_ok_send [simp]: "cache_ok E (send remote m w) = cache_ok E w"
  by (rule cache_ok_cong) simp_all

lemma heap_step_refl [simp]: "heap_step own hp hp"
  by (simp add: heap_step_def)

lemma heap_step_append [simp]: "heap_step own hp (hp @ [m])"
  by (simp add: heap_step_def nth_append)

lemma heap_step_update [simp]: "a \<in> own \<Longrightarrow> Questions m = Questions (hp ! a) \<Longrightarrow> heap_step own hp (hp[a := m])"
  by (cases "a < length hp") (auto simp: heap_step_def nth_list_update list_update_beyond)

lemma cache_ok_update:
  "cache_ok E w \<Longrightarrow> Questions m = Questions (w_heap w ! a) \<Longrightarrow> cache_ok E (w\<lparr>w_heap := (w_heap w)[a := m]\<rparr>)"
  by (cases "a < length (w_heap w)")
    (auto simp: cache_ok_def refs_ok_def world_ok_def nth_list_update list_update_beyond)

lemma cache_ok_put:
  assumes "cache_ok E w" "question_echoed (Exchange E) \<longrightarrow> Questions m \<noteq> []"
  shows "cache_ok E (w\<lparr>w_heap := w_heap w @ [m],
    w_cache := cache_put (w_heap w @ [m]) (w_cache w) now key (length (w_heap w))\<rparr>)"
  using assms by (auto simp: cache_ok_def refs_ok_def world_ok_def cache_put_def nth_append less_Suc_eq split: if_splits)

text \<open>A step touches no object of another request and no question of any object.\<close>

lemma proc_heap_step:
  assumes "proc_step E h remote req ph w = Return (ph', w')"
  shows "heap_step (owned ph) (w_heap w) (w_heap w')"
proof (cases ph)
  case Begin
  then show ?thesis using assms by (auto simp: step_begin_def Let_def split: if_splits option.splits)
next
  case (Ask p m ss e)
  then show ?thesis using assms by (cases ss; cases e) (auto split: prod.splits sum.splits option.splits)
qed (use assms in \<open>auto simp: step_write_def step_cut_def Let_def alloc_def cache_Set_put bind_outcome_Return_iff split: if_splits\<close>)

lemma proc_cache_ok:
  assumes "proc_step E h remote req ph w = Return (ph', w')" "phase_ok E remote req ph (w_heap w)" "cache_ok E w"
  shows "cache_ok E w'"
proof (cases ph)
  case Begin
  then show ?thesis using assms by (auto simp: step_begin_def Let_def split: if_splits option.splits)
next
  case (Ask p m ss e)
  then show ?thesis using assms by (cases ss; cases e) (auto split: prod.splits sum.splits option.splits)
next
  case (Publish m)
  then show ?thesis
    using assms cache_ok_put [OF assms(3), of m] by (auto simp: alloc_def cache_Set_put cell_ok_def)
next
  case (Writing a)
  then show ?thesis using assms by (auto simp: step_write_def Let_def cache_ok_update split: if_splits)
next
  case (Cutting a s)
  then show ?thesis using assms by (auto simp: step_cut_def Let_def cache_ok_update split: if_splits)
qed (use assms in \<open>auto simp: Let_def bind_outcome_Return_iff\<close>)

text \<open>A request owns at most one object, the one it has published itself.\<close>

lemma proc_owned:
  assumes "proc_step E h remote req ph w = Return (ph', w')"
  shows "owned ph' \<subseteq> owned ph \<or> (owned ph' = {length (w_heap w)} \<and> w_heap w' = w_heap w @ [w_heap w' ! length (w_heap w)])"
proof (cases ph)
  case Begin
  then show ?thesis using assms by (auto simp: step_begin_def Let_def split: if_splits option.splits)
next
  case (Ask p m ss e)
  then show ?thesis using assms
    by (cases ss; cases e) (auto simp: gave_up_def split: prod.splits sum.splits option.splits purpose.splits)
qed (use assms in \<open>auto simp: step_chase_def step_allow_def step_block_def step_cache_def step_write_def step_cut_def Let_def
    alloc_def cache_Set_put bind_outcome_Return_iff split: if_splits option.splits outcome.splits\<close>)

text \<open>A request writes once, when it is done.\<close>

fun reply_of :: "proc \<Rightarrow> (net_addr \<times> Msg) multiset" where
  "reply_of (remote, req, Done m) = {#(remote, m)#}"
| "reply_of (remote, req, ph) = {#}"

lemma proc_sent:
  assumes "proc_step E h remote req ph w = Return (ph', w')" "\<And>m. ph \<noteq> Done m"
  shows "mset (w_sent w') = mset (w_sent w) + reply_of (remote, req, ph') \<and> w_records w' = w_records w"
proof (cases ph)
  case Begin
  then show ?thesis using assms by (auto simp: step_begin_def Let_def split: if_splits option.splits)
next
  case (Ask p m ss e)
  then show ?thesis using assms
    by (cases ss; cases e) (auto simp: gave_up_def split: prod.splits sum.splits option.splits purpose.splits)
qed (use assms in \<open>auto simp: step_chase_def step_allow_def step_block_def step_cache_def step_write_def step_cut_def Let_def
    alloc_def cache_Set_put bind_outcome_Return_iff split: if_splits option.splits outcome.splits\<close>)

text \<open>The one step that can panic: looking into the cache, when the entry there is poisoned.\<close>

lemma proc_panic_iff:
  assumes "net_ok E" "phase_ok E remote req ph (w_heap w)"
  shows "proc_step E h remote req ph w = Panic \<longleftrightarrow>
    ph = CacheLookup \<and> poisoned E w (request_key remote (hd (Questions (the req))))"
proof (cases ph)
  case (Ask p m ss e)
  then show ?thesis
    using assms exchange_never_nil [OF net_okD(2) [OF assms(1)]]
    by (cases ss; cases e) (auto split: prod.splits sum.splits option.splits)
next
  case CacheLookup
  then show ?thesis
    using cache_Get_Panic_iff [of w E "request_key remote (hd (Questions (the req)))"]
    by (auto simp: step_cache_def split: option.splits outcome.splits)
qed (auto simp: Let_def alloc_def cache_Set_put)

section \<open>The invariant of the concurrent program\<close>

definition procs_ok :: "'n env \<Rightarrow> proc list \<Rightarrow> heap \<Rightarrow> bool" where
  "procs_ok E ps hp \<longleftrightarrow> (\<forall>(remote, req, ph) \<in> set ps. phase_ok E remote req ph hp)"

definition separate :: "proc list \<Rightarrow> bool" where
  "separate ps \<longleftrightarrow> (\<forall>i < length ps. \<forall>j < length ps. i \<noteq> j \<longrightarrow> owned (snd (snd (ps ! i))) \<inter> owned (snd (snd (ps ! j))) = {})"

definition conc_ok :: "'n env \<Rightarrow> 'n conc \<Rightarrow> bool" where
  "conc_ok E c \<longleftrightarrow>
     store_ok (w_records (k_world c)) \<and> cache_ok E (k_world c) \<and>
     procs_ok E (k_procs c) (w_heap (k_world c)) \<and> separate (k_procs c) \<and>
     mset (w_sent (k_world c)) = sum_list (map reply_of (k_procs c))"

fun cstate_ok :: "'n env \<Rightarrow> 'n cstate \<Rightarrow> bool" where
  "cstate_ok E (Serving c) \<longleftrightarrow> conc_ok E c"
| "cstate_ok E (Stopped code) \<longleftrightarrow> True"
| "cstate_ok E Broken \<longleftrightarrow> True"

lemma phase_ok_owned: "phase_ok E remote req ph hp \<Longrightarrow> owned ph \<subseteq> {..<length hp}"
  by (cases ph) auto

lemma phase_ok_frame:
  assumes "phase_ok E remote req ph hp" "heap_step own hp hp'" "owned ph \<inter> own = {}"
  shows "phase_ok E remote req ph hp'"
  using assms by (cases ph) (auto simp: heap_step_def)

lemma procs_ok_step:
  assumes "procs_ok E ps hp" "separate ps" "i < length ps" "ps ! i = (remote, req, ph)"
    and "heap_step (owned ph) hp hp'" "phase_ok E remote req ph' hp'"
  shows "procs_ok E (ps[i := (remote, req, ph')]) hp'"
proof -
  have "phase_ok E remote1 req1 ph1 hp'"
    if "j < length ps" "ps[i := (remote, req, ph')] ! j = (remote1, req1, ph1)" for j remote1 req1 ph1
  proof (cases "j = i")
    case True
    with that assms(3,6) show ?thesis by simp
  next
    case False
    with that have pj: "ps ! j = (remote1, req1, ph1)" by simp
    have "phase_ok E remote1 req1 ph1 hp" using assms(1) that(1) pj by (force simp: procs_ok_def set_conv_nth)
    moreover have "owned ph1 \<inter> owned ph = {}"
      using assms(2,3,4) that(1) False pj unfolding separate_def by (metis snd_conv)
    ultimately show ?thesis using phase_ok_frame assms(5) by blast
  qed
  then show ?thesis by (force simp: procs_ok_def in_set_conv_nth)
qed

lemma separate_step:
  assumes "separate ps" "procs_ok E ps hp" "i < length ps" "ps ! i = (remote, req, ph)"
    and "owned ph' \<subseteq> owned ph \<or> owned ph' = {length hp}"
  shows "separate (ps[i := (remote, req, ph')])"
proof -
  have other: "owned ph' \<inter> owned (snd (snd (ps ! j))) = {}" if "j < length ps" "j \<noteq> i" for j
  proof -
    obtain remote1 req1 ph1 where pj: "ps ! j = (remote1, req1, ph1)" by (metis prod.exhaust)
    with assms(2) that have "phase_ok E remote1 req1 ph1 hp" by (force simp: procs_ok_def set_conv_nth)
    then have "owned ph1 \<subseteq> {..<length hp}" by (rule phase_ok_owned)
    moreover have "owned ph \<inter> owned ph1 = {}"
      using assms(1,3,4) that pj unfolding separate_def by (metis snd_conv)
    ultimately show ?thesis using assms(5) pj by auto
  qed
  then show ?thesis
    using assms(1,3) unfolding separate_def by (simp add: nth_list_update Int_commute)
qed

lemma replies_step:
  "i < length ps \<Longrightarrow> reply_of (ps ! i) = {#} \<Longrightarrow>
     sum_list (map reply_of (ps[i := x])) = sum_list (map reply_of ps) + reply_of x"
proof (induction ps arbitrary: i)
  case (Cons y ps)
  then show ?case by (cases i) simp_all
qed simp

lemma reply_of_open: "(\<And>m. ph \<noteq> Done m) \<Longrightarrow> reply_of (remote, req, ph) = {#}"
  by (cases ph) auto

lemma proceed_ok:
  assumes "net_ok E" "upstreamServers (forwarder h) \<noteq> []" "conc_ok E c"
    and "i < length (k_procs c)" "k_procs c ! i = (remote, req, ph)" "\<And>m. ph \<noteq> Done m"
    and "proc_step E h remote req ph (k_world c) = Return (ph', w')"
  shows "conc_ok E (c\<lparr>k_world := w', k_procs := (k_procs c)[i := (remote, req, ph')]\<rparr>)"
proof -
  let ?w = "k_world c"
  have ok: "store_ok (w_records ?w)" "cache_ok E ?w" "procs_ok E (k_procs c) (w_heap ?w)" "separate (k_procs c)"
    "mset (w_sent ?w) = sum_list (map reply_of (k_procs c))"
    using assms(3) by (auto simp: conc_ok_def)
  have ph: "phase_ok E remote req ph (w_heap ?w)"
    using ok(3) assms(4,5) by (force simp: procs_ok_def set_conv_nth)
  have "procs_ok E ((k_procs c)[i := (remote, req, ph')]) (w_heap w')"
    by (rule procs_ok_step [OF ok(3,4) assms(4,5) proc_heap_step [OF assms(7)] phase_ok_step [OF assms(1,2) ph assms(7)]])
  moreover have "separate ((k_procs c)[i := (remote, req, ph')])"
    by (rule separate_step [OF ok(4,3) assms(4,5)]) (use proc_owned [OF assms(7)] in blast)
  moreover have "mset (w_sent w') = sum_list (map reply_of ((k_procs c)[i := (remote, req, ph')]))"
    using proc_sent [OF assms(7,6)] ok(5) replies_step [OF assms(4), of "(remote, req, ph')"] reply_of_open [OF assms(6)] assms(5)
    by simp
  ultimately show ?thesis
    using ok(1) proc_sent [OF assms(7,6)] proc_cache_ok [OF assms(7) ph ok(2)] by (simp add: conc_ok_def)
qed

lemma separate_arrive: "separate ps \<Longrightarrow> owned (snd (snd x)) = {} \<Longrightarrow> separate (ps @ [x])"
  by (auto simp: separate_def nth_append less_Suc_eq)

lemma arrive_ok: "conc_ok E c \<Longrightarrow> conc_ok E (c\<lparr>k_procs := k_procs c @ [(remote, req, Begin)]\<rparr>)"
  by (auto simp: conc_ok_def procs_ok_def separate_arrive)

lemma cstep_ok:
  assumes "net_ok E" "upstreamServers (forwarder (p_handler p)) \<noteq> []" "cstate_ok E st" "cstep E S p st st'"
  shows "cstate_ok E st'"
  using assms(4)
proof cases
  case (arrive c remote req)
  then show ?thesis using assms(3) arrive_ok by simp
next
  case (proceed i c remote req ph ph' w')
  then show ?thesis using proceed_ok [OF assms(1,2)] assms(3) by simp
next
  case (hangup c err w')
  then show ?thesis
    using assms(3) loadRecords_frame [OF hangup(4)] loadRecords_store_ok [OF hangup(4)] cache_ok_cong [of w' "k_world c" E]
    by (auto simp: conc_ok_def)
next
  case (clear c)
  then show ?thesis using assms(3) by (auto simp: conc_ok_def ClearCache_def cache_Clear_def intro: cache_ok_empty)
qed (use assms(3) in \<open>auto simp: conc_ok_def\<close>)

interpretation goroutines: invariant_system "launched p" "cstep E S p"
    "\<lambda>st. net_ok E \<and> run_start (dlib E) S V open_log open_append n = Started p \<longrightarrow> cstate_ok E st"
  for E S V open_log open_append n p
proof unfold_locales
  fix st assume "launched p st"
  then show "net_ok E \<and> run_start (dlib E) S V open_log open_append n = Started p \<longrightarrow> cstate_ok E st"
    using run_start_ok [of "dlib E" S V open_log open_append n p] cache_ok_empty [of "p_world p" E]
    by (auto simp: launched_def conc_ok_def procs_ok_def separate_def)
next
  fix st st'
  assume "net_ok E \<and> run_start (dlib E) S V open_log open_append n = Started p \<longrightarrow> cstate_ok E st" "cstep E S p st st'"
  then show "net_ok E \<and> run_start (dlib E) S V open_log open_append n = Started p \<longrightarrow> cstate_ok E st'"
    using cstep_ok [of E p st S st'] run_start_ok(4) [of "dlib E" S V open_log open_append n p] by simp
qed

text \<open>A request that is about to look into the cache and will meet a poisoned entry.\<close>

definition doomed :: "'n env \<Rightarrow> 'n conc \<Rightarrow> bool" where
  "doomed E c \<longleftrightarrow> (\<exists>remote r q qs. (remote, Some r, CacheLookup) \<in> set (k_procs c) \<and> Questions r = q # qs \<and>
     poisoned E (k_world c) (request_key remote q))"

inductive_simps cstep_to_Broken: "cstep E S p (Serving c) Broken"

lemma cstep_Broken_iff:
  assumes "net_ok E" "conc_ok E c"
  shows "cstep E S p (Serving c) Broken \<longleftrightarrow> doomed E c"
proof
  assume "cstep E S p (Serving c) Broken"
  then obtain i remote req ph where i: "i < length (k_procs c)" "k_procs c ! i = (remote, req, ph)"
    "proc_step E (p_handler p) remote req ph (k_world c) = Panic"
    by (auto simp: cstep_to_Broken)
  then have "(remote, req, ph) \<in> set (k_procs c)" by (metis nth_mem)
  moreover from this have ph: "phase_ok E remote req ph (w_heap (k_world c))"
    using assms(2) by (auto simp: conc_ok_def procs_ok_def)
  moreover have "ph = CacheLookup \<and> poisoned E (k_world c) (request_key remote (hd (Questions (the req))))"
    using proc_panic_iff [OF assms(1) ph] i(3) by blast
  moreover from this ph have "has_question req" by simp
  ultimately show "doomed E c" by (elim has_questionE) (auto simp: doomed_def)
next
  assume "doomed E c"
  then obtain remote r q qs where d: "(remote, Some r, CacheLookup) \<in> set (k_procs c)" "Questions r = q # qs"
    "poisoned E (k_world c) (request_key remote q)" by (auto simp: doomed_def)
  then have "phase_ok E remote (Some r) CacheLookup (w_heap (k_world c))"
    using assms(2) by (fastforce simp: conc_ok_def procs_ok_def)
  from proc_panic_iff [OF assms(1) this, of "p_handler p"] d
  have "proc_step E (p_handler p) remote (Some r) CacheLookup (k_world c) = Panic" by simp
  with d(1) show "cstep E S p (Serving c) Broken" by (metis in_set_conv_nth panic)
qed

lemma broken_origin:
  assumes "reachable (launched p) (cstep E S p) Broken"
  obtains c where "reachable (launched p) (cstep E S p) (Serving c)" "cstep E S p (Serving c) Broken"
  using assms
proof (cases rule: reachable.cases)
  case reach_init
  then show thesis by (simp add: launched_def)
next
  case (reach_step s)
  from reach_step(2) obtain c where "s = Serving c" by cases auto
  with reach_step that show thesis by blast
qed

text \<open>
  C2: The concurrent program, however the requests in flight, the reloads and the refreshes interleave: the
  record store stays well formed, every cache entry points to a message, and what has been sent is exactly one reply to
  every request that is done, at its address, with its ID and, over UDP, small enough. No
  reply is lost, doubled or sent for another request. It can crash in a state exactly when
  a request is about to look into the cache and the entry there has expired and holds a message without question; no other
  access to shared state panics in any interleaving, and a program that has crashed was in such a state. The hypotheses
  are on the DNS library and its client: it gives a message or an error, and the message has the ID of the request.
\<close>

theorem concurrent_program_safe:
  assumes "net_ok E" and "run_start (dlib E) S V open_log open_append n = Started p"
    and "reachable (launched p) (cstep E S p) st"
  shows "(\<forall>c. st = Serving c \<longrightarrow>
       store_ok (w_records (k_world c)) \<and> refs_ok (k_world c) \<and>
       mset (w_sent (k_world c)) = sum_list (map reply_of (k_procs c)) \<and>
       (\<forall>remote req m. (remote, req, Done m) \<in> set (k_procs c) \<longrightarrow> reply_ok (dlib E) remote req m) \<and>
       (cstep E S p st Broken \<longleftrightarrow> doomed E c)) \<and>
    (st = Broken \<longrightarrow> (\<exists>c. reachable (launched p) (cstep E S p) (Serving c) \<and> doomed E c))"
proof -
  have ok: "cstate_ok E st'" if "reachable (launched p) (cstep E S p) st'" for st'
    using goroutines.reachable_inv [OF that] assms(1,2) by blast
  have "\<exists>c. reachable (launched p) (cstep E S p) (Serving c) \<and> doomed E c" if "st = Broken"
    using broken_origin [OF assms(3) [unfolded that]] ok cstep_Broken_iff [OF assms(1)] by (metis cstate_ok.simps(1))
  moreover have "store_ok (w_records (k_world c)) \<and> refs_ok (k_world c) \<and>
      mset (w_sent (k_world c)) = sum_list (map reply_of (k_procs c)) \<and>
      (\<forall>remote req m. (remote, req, Done m) \<in> set (k_procs c) \<longrightarrow> reply_ok (dlib E) remote req m) \<and>
      (cstep E S p st Broken \<longleftrightarrow> doomed E c)" if st: "st = Serving c" for c
  proof -
    have c: "conc_ok E c" using ok [OF assms(3)] st by simp
    have "reply_ok (dlib E) remote req m" if "(remote, req, Done m) \<in> set (k_procs c)" for remote req m
      using c that by (force simp: conc_ok_def procs_ok_def)
    with c cstep_Broken_iff [OF assms(1) c, of S p] st show ?thesis by (simp add: conc_ok_def cache_ok_def)
  qed
  ultimately show ?thesis by blast
qed

text \<open>With upstream servers that repeat the question no interleaving crashes.\<close>

lemma concurrent_never_crashes:
  assumes "net_ok E" "question_echoed (Exchange E)" "run_start (dlib E) S V open_log open_append n = Started p"
    and "reachable (launched p) (cstep E S p) st"
  shows "st \<noteq> Broken"
proof
  assume "st = Broken"
  with assms(4) obtain c where c: "reachable (launched p) (cstep E S p) (Serving c)" "cstep E S p (Serving c) Broken"
    by (blast elim: broken_origin)
  have "cstate_ok E (Serving c)" using goroutines.reachable_inv [OF c(1)] assms(1,3) by blast
  then have ok: "conc_ok E c" by simp
  then show False
    using c(2) cstep_Broken_iff [OF assms(1) ok, of S p] world_ok_not_poisoned [of "k_world c" E] assms(2)
    by (auto simp: conc_ok_def cache_ok_def doomed_def)
qed

theorem concurrent_program_safe_witness:
  "\<exists>p c. run_start sample_lib idle_os sample_cfgenv (\<lambda>p. None) (\<lambda>p. Inr []) 0 = Started p \<and>
     reachable (launched p) (cstep (sample_env Map.empty) idle_os p) (Serving c) \<and>
     length (k_procs c) = 2 \<and> size (mset (w_sent (k_world c))) = 1 \<and>
     mset (w_sent (k_world c)) = sum_list (map reply_of (k_procs c))"
proof -
  let ?E = "sample_env Map.empty"
  obtain p where p: "run_start sample_lib idle_os sample_cfgenv (\<lambda>p. None) (\<lambda>p. Inr []) 0 = Started p"
    using sample_run_start by blast
  let ?c0 = "\<lparr>k_world = p_world p, k_procs = [], k_clear = False, k_refresh = TickWait\<rparr>"
  let ?c1 = "?c0\<lparr>k_procs := [(sample_client, None, Begin)]\<rparr>"
  let ?c2 = "?c1\<lparr>k_procs := [(sample_client, None, Begin), (sample_client, Some (sample_request ''web.local.'' TypeA), Begin)]\<rparr>"
  let ?c3 = "?c2\<lparr>k_world := send sample_client (format_error ?E None) (p_world p),
    k_procs := (k_procs ?c2)[0 := (sample_client, None, Done (format_error ?E None))]\<rparr>"
  have step: "proc_step ?E h sample_client None Begin w =
      Return (Done (format_error ?E None), send sample_client (format_error ?E None) w)" for h w
    by (simp add: step_begin_def)
  have "reachable (launched p) (cstep ?E idle_os p) (Serving ?c0)" by (rule reach_init) (simp add: launched_def)
  moreover have "cstep ?E idle_os p (Serving ?c0) (Serving ?c1)" using arrive [of ?E idle_os p ?c0 sample_client None] by simp
  moreover have "cstep ?E idle_os p (Serving ?c1) (Serving ?c2)"
    using arrive [of ?E idle_os p ?c1 sample_client "Some (sample_request ''web.local.'' TypeA)"] by simp
  moreover have "cstep ?E idle_os p (Serving ?c2) (Serving ?c3)" 
    using proceed [of 0 ?c2 sample_client None Begin ?E p, OF _ _ _ step, of idle_os] by simp
  ultimately have r: "reachable (launched p) (cstep ?E idle_os p) (Serving ?c3)" by (meson reach_step)
  have "net_ok ?E" by (simp add: net_ok_def sample_lib_contract sample_exchanger_ok)
  from concurrent_program_safe [OF this _ r, of sample_cfgenv "\<lambda>p. None" "\<lambda>p. Inr []" 0] p have
    "mset (w_sent (k_world ?c3)) = sum_list (map reply_of (k_procs ?c3))" by simp
  with p r show ?thesis by (intro exI [of _ p] exI [of _ ?c3]) simp
qed

section \<open>A race between a request and a reload\<close>

text \<open>A query for the address of a local name: its first step reads the record, its second publishes the reply.\<close>

lemma step_begin_address:
  assumes "Questions r = q # qs" "records_Get (w_records w) (qName q) = Some rec" "Typ rec = records_A"
  shows "proc_step E h remote (Some r) Begin w = Return (Publish (handleA E (request_state remote q) r rec), w)"
  using assms by (simp add: step_begin_def)

lemma handleA_address:
  assumes "dns_contract (dlib E)" "Qtype q = TypeA"
  shows "Answer (handleA E (request_state remote q) r rec) = [mk_A (qName q) (Content rec)]"
  using assms by (simp add: handleA_def contract_simps Let_def)

text \<open>
  C20: A reload that succeeds does not get rid of every reply from before it: a request that reads the
  old records before the reload and puts its reply into the cache after the cache was cleared leaves it there, and the
  next query for the name, which has no record any more, is answered with the old address.
\<close>

theorem reload_race_serves_stale:
  assumes "dns_contract (dlib E)" and "Questions r = q # qs" and "Qtype q = TypeA"
    and "i < length (k_procs c)" and "k_procs c ! i = (remote, Some r, Begin)" and "\<not> k_clear c"
    and "records_Get (w_records (k_world c)) (qName q) = Some rec" and "Typ rec = records_A"
    and "loadRecords S (ResolveFrom (cRecords (p_cfg p))) (k_world c) = (None, w1)"
    and "records_Get (w_records w1) (qName q) = None" and "\<not> ShouldBlock (w_filter (k_world c)) (qName q)"
  shows "\<exists>c' w2 m. (cstep E S p)\<^sup>*\<^sup>* (Serving c) (Serving c') \<and> \<not> k_clear c' \<and> w_records (k_world c') = w_records w1 \<and>
    HandleDNSRequest E (p_handler p) remote (Some r) (k_world c') = Some (Return w2) \<and>
    w_sent w2 = w_sent (k_world c) @ [(remote, written E remote m)] \<and> Answer m = [mk_A (qName q) (Content rec)]"
proof -
  note fr = loadRecords_frame [OF assms(9)]
  let ?key = "request_key remote q" and ?m = "handleA E (request_state remote q) r rec"
  let ?hit = "?m\<lparr>MsgId := MsgId r, RecursionAvailable := True\<rparr>"
  let ?c0 = "c\<lparr>k_procs := (k_procs c)[i := (remote, Some r, Publish ?m)]\<rparr>"
  let ?c1 = "?c0\<lparr>k_world := w1, k_clear := True\<rparr>"
  let ?c2 = "?c1\<lparr>k_world := ClearCache w1, k_clear := False\<rparr>"
  let ?w3 = "(ClearCache w1)\<lparr>w_heap := w_heap w1 @ [?m],
    w_cache := cache_put (w_heap w1 @ [?m]) (w_cache (ClearCache w1)) (Now E (w_net w1)) ?key (length (w_heap w1))\<rparr>"
  let ?c3 = "?c2\<lparr>k_world := ?w3, k_procs := (k_procs ?c2)[i := (remote, Some r, Writing (length (w_heap w1)))]\<rparr>"
  have "cstep E S p (Serving c) (Serving ?c0)"
    using proceed [of i c remote "Some r" Begin E p, OF assms(4,5) _ step_begin_address [OF assms(2,7,8)], of S] by simp
  moreover have "cstep E S p (Serving ?c0) (Serving ?c1)" using hangup [of ?c0 S p None w1 E] assms(6,9) by simp
  moreover have "cstep E S p (Serving ?c1) (Serving ?c2)" using clear [of ?c1 E S p] by simp
  moreover have "cstep E S p (Serving ?c2) (Serving ?c3)"
    using proceed [of i ?c2 remote "Some r" "Publish ?m" E p "Writing (length (w_heap w1))" ?w3 S] assms(2,4)
    by (simp add: alloc_def cache_Set_put ClearCache_def)
  ultimately have "(cstep E S p)\<^sup>*\<^sup>* (Serving c) (Serving ?c3)" by (meson converse_rtranclp_into_rtranclp rtranclp.rtrancl_refl)
  moreover have "cache_Get (w_heap ?w3) (w_cache ?w3) (Now E (w_net ?w3)) ?key = Return (Some (length (w_heap w1)))"
    using msg_ttl_nonneg [of ?m] by (simp add: cache_Get_def cache_put_def ClearCache_def)
  moreover have "no_local (w_records ?w3) (qName q)" "\<not> ShouldBlock (w_filter ?w3) (qName q)"
    using assms(10,11) fr by (simp_all add: no_local_def ClearCache_def)
  ultimately show ?thesis
    using fr handleA_address [OF assms(1,3), of remote r rec]
    by (intro exI [of _ ?c3] exI [of _ "send remote (written E remote ?hit) ?w3"] exI [of _ ?hit])
      (simp add: HandleDNSRequest_nonlocal [OF assms(2)] dns_contractD(5) [OF assms(1)] ClearCache_def)
qed

text \<open>A program whose records file is empty by now, and a request that has just arrived.\<close>

definition emptied_os :: "nat osenv" where
  "emptied_os = idle_os\<lparr>OpenFile := (\<lambda>p n. Inr \<lparr>rd_data = [], rd_err = None\<rparr>)\<rparr>"

definition race_program :: "nat program" where
  "race_program = \<lparr>p_cfg = records_config, p_server = fst (server_New ''127.0.0.1:5300'' [''9.9.9.9:53'']),
     p_handler = sample_handler, p_ticker = False, p_world = sample_world chain_store None\<rparr>"

definition race_conc :: "nat conc" where
  "race_conc = \<lparr>k_world = sample_world chain_store None,
     k_procs = [(sample_client, Some (sample_request ''web.local.'' TypeA), Begin)], k_clear = False, k_refresh = TickWait\<rparr>"

theorem reload_race_serves_stale_witness:
  "\<exists>c' w2. (cstep (sample_env Map.empty) emptied_os race_program)\<^sup>*\<^sup>* (Serving race_conc) (Serving c') \<and>
     w_records (k_world c') = Map.empty \<and> \<not> k_clear c' \<and>
     HandleDNSRequest (sample_env Map.empty) sample_handler sample_client
       (Some (sample_request ''web.local.'' TypeA)) (k_world c') = Some (Return w2) \<and> length (w_sent w2) = 1"
proof -
  let ?r = "sample_request ''web.local.'' TypeA" and ?q = "\<lparr>qName = ''web.local.'', Qtype = TypeA, Qclass = ClassINET\<rparr>"
  have "sanitizeRecordsPath ''r.txt'' = Inr ''r.txt''" by code_simp
  then have load: "loadRecords emptied_os (ResolveFrom (cRecords (p_cfg race_program))) (k_world race_conc) =
      (None, (sample_world chain_store None)\<lparr>w_records := Map.empty\<rparr>)"
    by (simp add: loadRecords_def LoadFromFile_def scan_eval emptied_os_def race_program_def records_config_def race_conc_def)
  have h: "p_handler race_program = sample_handler" by (simp add: race_program_def)
  have "\<not> ShouldBlock (w_filter (k_world race_conc)) (qName ?q)" "w_sent (k_world race_conc) = []"
    by (simp_all add: race_conc_def)
  then show ?thesis
    using reload_race_serves_stale [of "sample_env Map.empty" ?r ?q "[]" 0 race_conc sample_client
        "\<lparr>Typ = records_A, Content = ''10.0.0.1''\<rparr>" emptied_os race_program, OF _ _ _ _ _ _ _ _ load]
    unfolding h by (fastforce simp: sample_lib_contract records_Get_empty race_conc_def chain_store_Get)
qed

end
