(* ===== verification/FilterRaces.thy ===== *)
theory FilterRaces
  imports Concurrency
begin

text \<open>
  The filter of \<^verbatim>\<open>pkg/filtering/filter.go\<close> under concurrency. A query reads the allow list and the block list in
  two steps, a refresh replaces them in two steps, and requests read the records, the filter and the cache one after the
  other: a name that is blocked in every state of a run is nevertheless never answered, and the
  two stores of a refresh have a state between them that belongs to neither pair of lists.
\<close>

section \<open>A name that stays blocked\<close>

definition blocked_now :: "string \<Rightarrow> 'n cstate \<Rightarrow> bool" where
  "blocked_now name st =
     (case st of
        Serving c \<Rightarrow> ShouldBlock (w_filter (k_world c)) name \<and> no_local (w_records (k_world c)) name
      | _ \<Rightarrow> True)"

text \<open>The steps of the program that leave the name blocked and without local record.\<close>

definition blocked_step :: "'n env \<Rightarrow> 'n osenv \<Rightarrow> 'n program \<Rightarrow> string \<Rightarrow> 'n cstate \<Rightarrow> 'n cstate \<Rightarrow> bool" where
  "blocked_step E S p name st st' \<longleftrightarrow> cstep E S p st st' \<and> blocked_now name st'"

definition asks_for :: "string \<Rightarrow> Msg option \<Rightarrow> bool" where
  "asks_for name req \<longleftrightarrow> has_question req \<and> qName (hd (Questions (the req))) = name"

text \<open>The phases of a request that is on its way to a name error.\<close>

fun refusing :: "'n env \<Rightarrow> net_addr \<Rightarrow> Msg option \<Rightarrow> phase \<Rightarrow> bool" where
  "refusing E remote req Begin \<longleftrightarrow> True"
| "refusing E remote req AllowCheck \<longleftrightarrow> True"
| "refusing E remote req BlockCheck \<longleftrightarrow> True"
| "refusing E remote req LogHit \<longleftrightarrow> True"
| "refusing E remote req (Fresh m) \<longleftrightarrow> m = error_reply E (the req) RcodeNameError"
| "refusing E remote req (Done m) \<longleftrightarrow> m = written E remote (error_reply E (the req) RcodeNameError)"
| "refusing E remote req ph \<longleftrightarrow> False"

definition all_refused :: "'n env \<Rightarrow> string \<Rightarrow> 'n cstate \<Rightarrow> bool" where
  "all_refused E name st =
     (case st of
        Serving c \<Rightarrow> \<forall>(remote, req, ph) \<in> set (k_procs c). asks_for name req \<longrightarrow> refusing E remote req ph
      | _ \<Rightarrow> True)"

lemma refusing_step:
  assumes "asks_for name req" "ShouldBlock (w_filter w) name" "no_local (w_records w) name" "refusing E remote req ph"
    and "proc_step E h remote req ph w = Return (ph', w')"
  shows "refusing E remote req ph'"
  using assms
  by (cases ph)
    (auto simp: asks_for_def has_question_def step_begin_def step_allow_def step_block_def ShouldBlock_def no_local_def Let_def
      split: option.splits if_splits)

lemma all_refused_step:
  assumes "blocked_now name st" "all_refused E name st" "cstep E S p st st'"
  shows "all_refused E name st'"
  using assms(3,1,2)
proof (cases rule: cstep.cases)
  case (proceed i c remote req ph ph' w')
  have "(remote, req, ph) \<in> set (k_procs c)" using proceed by (metis nth_mem)
  then have "asks_for name req \<longrightarrow> refusing E remote req ph'"
    using refusing_step [of name req "k_world c" E remote ph "p_handler p" ph' w'] proceed assms
    by (auto simp: all_refused_def blocked_now_def)
  moreover have "set ((k_procs c)[i := (remote, req, ph')]) \<subseteq> insert (remote, req, ph') (set (k_procs c))"
    by (rule set_update_subset_insert)
  ultimately show ?thesis using assms(2) proceed(1,2) by (fastforce simp: all_refused_def)
qed (auto simp: all_refused_def)

interpretation refused: invariant_system "\<lambda>st. launched p st \<and> blocked_now name st" "blocked_step E S p name"
    "\<lambda>st. blocked_now name st \<and> all_refused E name st"
  for E S p name
proof unfold_locales
  show "blocked_now name st \<and> all_refused E name st" if "launched p st \<and> blocked_now name st" for st
    using that by (auto simp: launched_def all_refused_def)
  show "blocked_now name st' \<and> all_refused E name st'"
    if "blocked_now name st \<and> all_refused E name st" "blocked_step E S p name st st'" for st st'
    using that all_refused_step by (auto simp: blocked_step_def)
qed

lemma error_reply_written:
  assumes "dns_contract (dlib E)"
  shows "written E remote (error_reply E r code) = error_reply E r code" "Rcode (error_reply E r code) = code"
    "Answer (error_reply E r code) = []"
  using assms by (simp_all add: error_reply_def written_def fit_response_def contract_simps)

text \<open>
  C14: A blocked name stays refused under concurrency: in a run in which the lists block a name in
  every state and it never has a local record, whatever requests, refreshes and reloads interleave, no request for
  it asks an upstream server, reads or fills the cache; and one that is done was answered with a name error,
  without records and with its own ID.
\<close>

theorem blocked_under_concurrency:
  assumes "dns_contract (dlib E)"
    and "reachable (\<lambda>st. launched p st \<and> blocked_now name st) (blocked_step E S p name) (Serving c)"
    and "(remote, Some r, ph) \<in> set (k_procs c)" and "Questions r = q # qs" and "qName q = name"
  shows "(\<forall>to m servers e. ph \<noteq> Ask to m servers e) \<and> ph \<noteq> CacheLookup \<and> (\<forall>m. ph \<noteq> Publish m) \<and>
    (\<forall>m. ph = Done m \<longrightarrow> Rcode m = RcodeNameError \<and> Answer m = [] \<and> MsgId m = MsgId r)"
proof -
  have "all_refused E name (Serving c)" using refused.reachable_inv [OF assms(2)] by blast
  then have "refusing E remote (Some r) ph"
    using assms(3-5) by (force simp: all_refused_def asks_for_def has_question_def)
  then show ?thesis
    using error_reply_written(1) [OF assms(1), of remote r RcodeNameError]
      error_reply_written(2,3) [OF assms(1), of r RcodeNameError] error_reply_id [OF assms(1), of r RcodeNameError]
    by (cases ph) auto
qed

text \<open>A request changes neither the lists nor the records, so it can always go on within such a run.\<close>

lemma proc_lists:
  assumes "proc_step E h remote req ph w = Return (ph', w')"
  shows "ShouldBlock (w_filter w') name = ShouldBlock (w_filter w) name \<and> w_records w' = w_records w"
proof (cases ph)
  case Begin
  then show ?thesis using assms by (auto simp: step_begin_def Let_def split: if_splits option.splits)
next
  case (Ask to m ss e)
  then show ?thesis using assms by (cases ss; cases e) (auto split: prod.splits sum.splits option.splits)
qed (use assms in \<open>auto simp: step_write_def step_cut_def Let_def alloc_def cache_Set_put bind_outcome_Return_iff LogBlocked_decision
    split: if_splits\<close>)

lemma blocked_proceed:
  assumes "reachable (\<lambda>st. launched p st \<and> blocked_now name st) (blocked_step E S p name)
      (Serving \<lparr>k_world = w, k_procs = [(remote, req, ph)], k_clear = b, k_refresh = rf\<rparr>)"
    and "proc_step E (p_handler p) remote req ph w = Return (ph', w')" and "\<And>m. ph \<noteq> Done m"
  shows "reachable (\<lambda>st. launched p st \<and> blocked_now name st) (blocked_step E S p name)
      (Serving \<lparr>k_world = w', k_procs = [(remote, req, ph')], k_clear = b, k_refresh = rf\<rparr>)"
proof (rule reach_step [OF assms(1)])
  let ?c = "\<lparr>k_world = w, k_procs = [(remote, req, ph)], k_clear = b, k_refresh = rf\<rparr>"
  have "blocked_now name (Serving ?c)" using refused.reachable_inv [OF assms(1)] by blast
  then show "blocked_step E S p name (Serving ?c) (Serving \<lparr>k_world = w', k_procs = [(remote, req, ph')], k_clear = b, k_refresh = rf\<rparr>)"
    using proceed [of 0 ?c remote req ph E p ph' w' S] assms(2,3) proc_lists [OF assms(2), of name]
    by (simp add: blocked_step_def blocked_now_def)
qed

theorem blocked_under_concurrency_witness:
  "\<exists>c m. reachable (\<lambda>st. launched (race_program\<lparr>p_world := sample_world Map.empty (Some sample_filter)\<rparr>) st \<and> blocked_now ''Ads.example.'' st)
       (blocked_step (sample_env Map.empty) idle_os (race_program\<lparr>p_world := sample_world Map.empty (Some sample_filter)\<rparr>) ''Ads.example.'')
       (Serving c) \<and>
     k_procs c = [(sample_client, Some (sample_request ''Ads.example.'' TypeA), Done m)] \<and> Rcode m = RcodeNameError"
proof -
  let ?E = "sample_env Map.empty" and ?w = "sample_world Map.empty (Some sample_filter)" and ?n = "''Ads.example.''"
  let ?r = "sample_request ?n TypeA" and ?p = "race_program\<lparr>p_world := ?w\<rparr>"
  let ?R = "\<lambda>ph w. reachable (\<lambda>st. launched ?p st \<and> blocked_now ?n st) (blocked_step ?E idle_os ?p ?n)
      (Serving \<lparr>k_world = w, k_procs = [(sample_client, Some ?r, ph)], k_clear = False, k_refresh = TickWait\<rparr>)"
  let ?c0 = "\<lparr>k_world = ?w, k_procs = [], k_clear = False, k_refresh = TickWait\<rparr>"
  have now: "blocked_now ?n (Serving ?c0)" by (simp add: blocked_now_def sample_filter_blocks no_local_def records_Get_empty)
  have lists: "step_allow ?n (Some sample_filter) = BlockCheck" "step_block ?n (Some sample_filter) = LogHit"
    using step_allow_rest [of ?n "Some sample_filter"] sample_filter_blocks by auto
  have "reachable (\<lambda>st. launched ?p st \<and> blocked_now ?n st) (blocked_step ?E idle_os ?p ?n) (Serving ?c0)"
    by (rule reach_init) (use now in \<open>simp add: launched_def\<close>)
  then have "?R Begin ?w"
    using now arrive [of ?E idle_os ?p ?c0 sample_client "Some ?r"]
    by (elim reach_step) (simp add: blocked_step_def blocked_now_def)
  then have "?R AllowCheck ?w" by (rule blocked_proceed) (simp_all add: step_begin_def records_Get_empty)
  then have "?R BlockCheck ?w" by (rule blocked_proceed) (simp_all add: lists)
  then have "?R LogHit ?w" by (rule blocked_proceed) (simp_all add: lists)
  then obtain w1 m1 where "?R (Fresh m1) w1" by (rule blocked_proceed [THEN that]) (simp_all add: Let_def)
  then have r: "?R (Done (written ?E sample_client m1)) (send sample_client (written ?E sample_client m1) w1)"
    by (rule blocked_proceed) simp_all
  show ?thesis
    by (intro exI conjI, rule r)
      (use blocked_under_concurrency [OF _ r, of sample_client ?r] in \<open>auto simp: sample_lib_contract\<close>)
qed

section \<open>The state between the two stores of a refresh\<close>

text \<open>
  A refresh stores the new block list before the new allow list. A name that both new lists contain
  is allowed by the new lists, but in the state between the stores the new block list meets
  the old allow list, and the name is refused.
\<close>

theorem refresh_race_blocks:
  assumes "k_refresh c = StoreBlock (Some bl) (Some al)" and "w_filter (k_world c) = Some f" and "enabled f"
    and "\<not> Matches (Some (currentAllowlist f)) name (blockSubdomains f)"
    and "Matches (Some bl) name (blockSubdomains f)" and "Matches (Some al) name (blockSubdomains f)"
  shows "\<exists>c1 c2. cstep E S p (Serving c) (Serving c1) \<and> cstep E S p (Serving c1) (Serving c2) \<and> k_refresh c2 = TickWait \<and>
    ShouldBlock (w_filter (k_world c1)) name \<and> \<not> ShouldBlock (w_filter (k_world c2)) name"
proof -
  let ?c1 = "c\<lparr>k_world := (k_world c)\<lparr>w_filter := Some (f\<lparr>blocklist := Some bl\<rparr>)\<rparr>, k_refresh := StoreAllow (Some al)\<rparr>"
  let ?f2 = "f\<lparr>blocklist := Some bl, allowlist := Some al\<rparr>"
  let ?c2 = "?c1\<lparr>k_world := (k_world ?c1)\<lparr>w_filter := Some ?f2\<rparr>, k_refresh := TickWait\<rparr>"
  have "cstep E S p (Serving c) (Serving ?c1)" using store_block [OF assms(1,2), of E S p] by simp
  moreover have "cstep E S p (Serving ?c1) (Serving ?c2)"
    using store_allow [of ?c1 "Some al" "f\<lparr>blocklist := Some bl\<rparr>" E S p] by simp
  moreover have "ShouldBlock (w_filter (k_world ?c1)) name" "\<not> ShouldBlock (w_filter (k_world ?c2)) name"
    using assms(3-6) by (simp_all add: ShouldBlock_def currentAllowlist_def currentBlocklist_def)
  ultimately show ?thesis by (intro exI [of _ ?c1] exI [of _ ?c2]) simp
qed

text \<open>A list that the operator extends together with an exception for it.\<close>

theorem refresh_race_blocks_witness:
  "\<exists>c1 c2. cstep (sample_env Map.empty) idle_os race_program
       (Serving (race_conc\<lparr>k_world := sample_world Map.empty (Some sample_filter),
          k_refresh := StoreBlock (Some \<lparr>Exact = {''new.example''}, Wildcards = {}\<rparr>) (Some \<lparr>Exact = {''new.example''}, Wildcards = {}\<rparr>)\<rparr>))
       (Serving c1) \<and>
     cstep (sample_env Map.empty) idle_os race_program (Serving c1) (Serving c2) \<and>
     ShouldBlock (w_filter (k_world c1)) ''new.example'' \<and> \<not> ShouldBlock (w_filter (k_world c2)) ''new.example''"
proof -
  let ?d = "\<lparr>Exact = {''new.example''}, Wildcards = {}\<rparr>"
  let ?c = "race_conc\<lparr>k_world := sample_world Map.empty (Some sample_filter), k_refresh := StoreBlock (Some ?d) (Some ?d)\<rparr>"
  have "normalizeLookupName ''new.example'' = ''new.example''" by code_simp
  then have "Matches (Some ?d) ''new.example'' (blockSubdomains sample_filter)" by (simp add: Matches_iff)
  moreover have "\<not> Matches (Some (currentAllowlist sample_filter)) ''new.example'' (blockSubdomains sample_filter)" "enabled sample_filter"
    by (simp_all add: sample_filter_def NewFilter_def currentAllowlist_def Matches_iff NewDomainSet_def)
  ultimately show ?thesis
    using refresh_race_blocks [of ?c ?d ?d sample_filter "''new.example''" "sample_env Map.empty" idle_os race_program] by auto
qed

end
