(* ===== verification/DnsStub.thy ===== *)
theory DnsStub
  imports Requests
begin

text \<open>
  \<^verbatim>\<open>internal/testutil/dnsstub.go\<close>: the DNS server with fixed answers the tests run the program
  against: its handler, keys and record constructors, and how it starts, waits for its listener and is
  closed. The sockets of the machine and the server of the DNS library that answers on them are
  parameters. The stub is also an upstream that satisfies what the request handler relies on.
\<close>

section \<open>Operations\<close>

record StubResponse =
  Answers :: "RR list"
  RespRcode :: int

definition NormalizeName :: "string \<Rightarrow> string" where
  "NormalizeName name =
     (let trimmed = TrimSpace name in
      if trimmed = [] then []
      else
        let lower = ToLower trimmed in
        if HasSuffix lower ''.'' then lower else lower @ ''.'')"

definition Key :: "string \<Rightarrow> u16 \<Rightarrow> string" where
  "Key name qtype = ToLower (NormalizeName name) @ ''|'' @ Itoa (unat qtype)"

text \<open>The reply the fixed handler writes.\<close>

definition FixedHandler :: "dnslib \<Rightarrow> (string \<rightharpoonup> StubResponse) \<Rightarrow> Msg option \<Rightarrow> Msg" where
  "FixedHandler L responses req =
     (if req = None \<or> Questions (the req) = [] then new_Msg\<lparr>Rcode := RcodeFormatError\<rparr>
      else
        let r = the req;
            reply = (SetReply L new_Msg r)\<lparr>RecursionAvailable := True\<rparr>;
            q = hd (Questions r)
        in
        case responses (Key (qName q) (Qtype q)) of
          Some resp \<Rightarrow>
            let reply1 = (if RespRcode resp \<noteq> 0 then reply\<lparr>Rcode := RespRcode resp\<rparr> else reply)
            in reply1\<lparr>Answer := Answer reply1 @ Answers resp\<rparr>
        | None \<Rightarrow> reply\<lparr>Rcode := RcodeNameError\<rparr>)"

definition stub_header :: "string \<Rightarrow> u16 \<Rightarrow> RR_Header" where
  "stub_header name t = \<lparr>hName = NormalizeName name, Rrtype = t, Class = ClassINET, Ttl = 60\<rparr>"

definition ARecord :: "string \<Rightarrow> string \<Rightarrow> RR" where
  "ARecord name ip = RR_A (stub_header name TypeA) (ParseIP ip)"

definition AAAARecord :: "string \<Rightarrow> string \<Rightarrow> RR" where
  "AAAARecord name ip = RR_AAAA (stub_header name TypeAAAA) (ParseIP ip)"

definition CNAMERecord :: "string \<Rightarrow> string \<Rightarrow> RR" where
  "CNAMERecord name target = RR_CNAME (stub_header name TypeCNAME) (NormalizeName target)"

section \<open>Starting and closing\<close>

record stub_server =
  Socket :: nat
  ServerHandler :: "Msg option \<Rightarrow> Msg"

record DNSStub =
  Addr :: string
  udpServer :: "stub_server option"
  tcpServer :: "stub_server option"

text \<open>
  What the stub uses of the packages \<^verbatim>\<open>net\<close> and \<^verbatim>\<open>dns\<close>, over a state of the machine. Opening a
  packet socket gives the socket and its port; \<open>Activate\<close> starts the goroutine of a server, and
  \<open>DialTimeout\<close> is one attempt with the closing of the connection and the pause after it. The channel that takes the
  servers' results has room for both and nothing depends on what is read from it.
\<close>

record 'n netlib =
  ListenPacket :: "string \<Rightarrow> string \<Rightarrow> 'n \<Rightarrow> (goerror + nat \<times> nat) \<times> 'n"
  NetListen :: "string \<Rightarrow> string \<Rightarrow> 'n \<Rightarrow> (goerror + nat) \<times> 'n"
  CloseSocket :: "nat \<Rightarrow> 'n \<Rightarrow> goerror option \<times> 'n"
  Activate :: "stub_server \<Rightarrow> 'n \<Rightarrow> 'n"
  Shutdown :: "stub_server \<Rightarrow> 'n \<Rightarrow> goerror option \<times> 'n"
  DialTimeout :: "string \<Rightarrow> string \<Rightarrow> 'n \<Rightarrow> goerror option \<times> 'n"

text \<open>A test: the machine and the stubs to close when the test ends, the last first.\<close>

record 'n testrun =
  t_net :: 'n
  t_cleanups :: "DNSStub list"

datatype stub_start = Fatal string goerror | Ready DNSStub

text \<open>The loop of \<^verbatim>\<open>waitForTCP\<close>; \<open>k\<close> attempts are left.\<close>

fun wait_loop :: "'n netlib \<Rightarrow> string \<Rightarrow> nat \<Rightarrow> goerror option \<Rightarrow> 'n \<Rightarrow> goerror option \<times> 'n" where
  "wait_loop N addr 0 lastErr n = (lastErr, n)"
| "wait_loop N addr (Suc k) lastErr n =
     (case DialTimeout N ''tcp'' addr n of
        (None, n') \<Rightarrow> (None, n')
      | (Some err, n') \<Rightarrow> wait_loop N addr k (Some err) n')"

definition waitForTCP :: "'n netlib \<Rightarrow> string \<Rightarrow> 'n \<Rightarrow> goerror option \<times> 'n" where
  "waitForTCP N addr n = wait_loop N addr 20 None n"

definition stub_Close :: "'n netlib \<Rightarrow> DNSStub \<Rightarrow> 'n \<Rightarrow> 'n" where
  "stub_Close N s n =
     (let n1 = (case tcpServer s of None \<Rightarrow> n | Some srv \<Rightarrow> snd (Shutdown N srv n))
      in case udpServer s of None \<Rightarrow> n1 | Some srv \<Rightarrow> snd (Shutdown N srv n1))"

definition StartDNSStub :: "'n netlib \<Rightarrow> (Msg option \<Rightarrow> Msg) \<Rightarrow> 'n testrun \<Rightarrow> stub_start \<times> 'n testrun" where
  "StartDNSStub N handler t =
     (case ListenPacket N ''udp'' ''127.0.0.1:0'' (t_net t) of
        (Inl err, n1) \<Rightarrow> (Fatal ''listen udp'' err, t\<lparr>t_net := n1\<rparr>)
      | (Inr (udpConn, port), n1) \<Rightarrow>
          let addr = ''127.0.0.1:'' @ Itoa port in
          (case NetListen N ''tcp'' addr n1 of
             (Inl err, n2) \<Rightarrow> (Fatal ''listen tcp'' err, t\<lparr>t_net := snd (CloseSocket N udpConn n2)\<rparr>)
           | (Inr tcpListener, n2) \<Rightarrow>
               let udp = \<lparr>Socket = udpConn, ServerHandler = handler\<rparr>;
                   tcp = \<lparr>Socket = tcpListener, ServerHandler = handler\<rparr>;
                   stub = \<lparr>Addr = addr, udpServer = Some udp, tcpServer = Some tcp\<rparr>;
                   n3 = Activate N tcp (Activate N udp n2)
               in
               (case waitForTCP N addr n3 of
                  (Some err, n4) \<Rightarrow> (Fatal ''wait for dns stub'' err, t\<lparr>t_net := stub_Close N stub n4\<rparr>)
                | (None, n4) \<Rightarrow> (Ready stub, t\<lparr>t_net := n4, t_cleanups := stub # t_cleanups t\<rparr>))))"

definition run_cleanups :: "'n netlib \<Rightarrow> 'n testrun \<Rightarrow> 'n" where
  "run_cleanups N t = fold (stub_Close N) (t_cleanups t) (t_net t)"

section \<open>Properties\<close>

text \<open>The stub keys its answers by the names the record store uses.\<close>

lemma NormalizeName_eq: "NormalizeName name = normalizeName name"
  by (simp add: NormalizeName_def normalizeName_def)

lemma Key_iff: "Key a t = Key b u \<longleftrightarrow> normalizeName a = normalizeName b \<and> t = u"
proof
  assume "Key a t = Key b u"
  then have "normalizeName a @ CHR ''|'' # Itoa (unat t) = normalizeName b @ CHR ''|'' # Itoa (unat u)"
    by (simp add: Key_def NormalizeName_eq normalizeName_lower)
  moreover have "CHR ''|'' \<notin> set (Itoa k)" for k by (rule Itoa_no_char) simp_all
  ultimately have "normalizeName a = normalizeName b" "Itoa (unat t) = Itoa (unat u)"
    using append_sep_inj by metis+
  then show "normalizeName a = normalizeName b \<and> t = u" using Itoa_inj by (metis word_unat_eq_iff)
qed (simp add: Key_def NormalizeName_eq)

text \<open>The stub is taken for started when one of twenty attempts reaches its port.\<close>

abbreviation after_dials :: "'n netlib \<Rightarrow> string \<Rightarrow> nat \<Rightarrow> 'n \<Rightarrow> 'n" where
  "after_dials N addr j n \<equiv> ((\<lambda>m. snd (DialTimeout N ''tcp'' addr m)) ^^ j) n"

lemma wait_loop_None_iff:
  "fst (wait_loop N addr k (Some e) n) = None \<longleftrightarrow> (\<exists>j < k. fst (DialTimeout N ''tcp'' addr (after_dials N addr j n)) = None)"
proof (induction k arbitrary: e n)
  case (Suc k)
  obtain r n' where "DialTimeout N ''tcp'' addr n = (r, n')" by fastforce
  then show ?case by (cases r) (auto simp: Ex_less_Suc2 Suc.IH funpow_Suc_right simp del: funpow.simps)
qed simp

lemma wait_loop_fresh: "wait_loop N addr (Suc k) None n = wait_loop N addr (Suc k) (Some e) n"
  by simp

lemma waitForTCP_iff:
  "fst (waitForTCP N addr n) = None \<longleftrightarrow> (\<exists>j < 20. fst (DialTimeout N ''tcp'' addr (after_dials N addr j n)) = None)"
  using wait_loop_None_iff [of N addr 20 e n] wait_loop_fresh [of N addr 19 n e] by (simp add: waitForTCP_def)

text \<open>
  What the packages promise of the sockets that are open: opening adds a new one, closing removes it,
  a shutdown that succeeds closes the server's socket, and one that fails (a server that has not started) leaves it.
\<close>

definition net_contract :: "('n \<Rightarrow> nat set) \<Rightarrow> 'n netlib \<Rightarrow> bool" where
  "net_contract sockets N \<longleftrightarrow>
     (\<forall>net a n e n'. ListenPacket N net a n = (Inl e, n') \<longrightarrow> sockets n' = sockets n) \<and>
     (\<forall>net a n s p n'. ListenPacket N net a n = (Inr (s, p), n') \<longrightarrow> s \<notin> sockets n \<and> sockets n' = insert s (sockets n)) \<and>
     (\<forall>net a n e n'. NetListen N net a n = (Inl e, n') \<longrightarrow> sockets n' = sockets n) \<and>
     (\<forall>net a n s n'. NetListen N net a n = (Inr s, n') \<longrightarrow> s \<notin> sockets n \<and> sockets n' = insert s (sockets n)) \<and>
     (\<forall>s n. sockets (snd (CloseSocket N s n)) = sockets n - {s}) \<and>
     (\<forall>srv n. sockets (Activate N srv n) = sockets n) \<and>
     (\<forall>srv n n'. Shutdown N srv n = (None, n') \<longrightarrow> sockets n' = sockets n - {Socket srv}) \<and>
     (\<forall>srv n e n'. Shutdown N srv n = (Some e, n') \<longrightarrow> sockets n' = sockets n) \<and>
     (\<forall>net a n. sockets (snd (DialTimeout N net a n)) = sockets n)"

lemma net_contractD:
  assumes "net_contract sockets N"
  shows "ListenPacket N net a n = (Inl e, n') \<Longrightarrow> sockets n' = sockets n"
    "ListenPacket N net a n = (Inr (s, p), n') \<Longrightarrow> s \<notin> sockets n \<and> sockets n' = insert s (sockets n)"
    "NetListen N net a n = (Inl e, n') \<Longrightarrow> sockets n' = sockets n"
    "NetListen N net a n = (Inr s, n') \<Longrightarrow> s \<notin> sockets n \<and> sockets n' = insert s (sockets n)"
    "sockets (snd (CloseSocket N s n)) = sockets n - {s}"
    "sockets (Activate N srv n) = sockets n"
    "Shutdown N srv n = (None, n') \<Longrightarrow> sockets n' = sockets n - {Socket srv}"
    "sockets (snd (DialTimeout N net a n)) = sockets n"
  using assms unfolding net_contract_def by metis+

lemma wait_loop_sockets: "net_contract sockets N \<Longrightarrow> sockets (snd (wait_loop N addr k e n)) = sockets n"
proof (induction k arbitrary: e n)
  case (Suc k)
  have "sockets (snd (DialTimeout N ''tcp'' addr n)) = sockets n" by (rule net_contractD(8) [OF Suc.prems])
  then show ?case using Suc by (auto split: prod.splits option.splits)
qed simp

lemma stub_Close_sockets:
  assumes "net_contract sockets N" "\<forall>srv n. fst (Shutdown N srv n) = None" "tcpServer s = Some tcp" "udpServer s = Some udp"
  shows "sockets (stub_Close N s n) = sockets n - {Socket tcp, Socket udp}"
proof -
  have "sockets (snd (Shutdown N srv m)) = sockets m - {Socket srv}" for srv m
    using net_contractD(7) [OF assms(1), of srv m "snd (Shutdown N srv m)"] assms(2) by (metis prod.collapse)
  then show ?thesis by (auto simp: stub_Close_def assms(3,4))
qed

text \<open>The two sockets, once they are open: they are different, and closing the stub gives back what was open before.\<close>

lemma opened_sockets:
  assumes "net_contract sockets N" "\<forall>srv n. fst (Shutdown N srv n) = None"
    and "ListenPacket N net a n = (Inr (u, port), n1)" "NetListen N net' a' n1 = (Inr c, n2)"
    and "waitForTCP N addr (Activate N tcp (Activate N udp n2)) = (r, n4)" "Socket tcp = c" "Socket udp = u"
  shows "u \<noteq> c \<and> sockets n4 = {u, c} \<union> sockets n"
    and "sockets (stub_Close N \<lparr>Addr = addr, udpServer = Some udp, tcpServer = Some tcp\<rparr> n4) = sockets n"
proof -
  note D = net_contractD [OF assms(1)]
  have s1: "u \<notin> sockets n \<and> sockets n1 = insert u (sockets n)" by (rule D(2) [OF assms(3)])
  have s2: "c \<notin> sockets n1 \<and> sockets n2 = insert c (sockets n1)" by (rule D(4) [OF assms(4)])
  have "sockets n4 = sockets n2"
    using wait_loop_sockets [OF assms(1), of addr 20 None "Activate N tcp (Activate N udp n2)"]
      D(6) [of tcp "Activate N udp n2"] D(6) [of udp n2] assms(5) by (simp add: waitForTCP_def)
  then show s4: "u \<noteq> c \<and> sockets n4 = {u, c} \<union> sockets n" using s1 s2 by auto
  have "sockets (stub_Close N \<lparr>Addr = addr, udpServer = Some udp, tcpServer = Some tcp\<rparr> n4) = sockets n4 - {c, u}"
    using stub_Close_sockets [OF assms(1,2), of "\<lparr>Addr = addr, udpServer = Some udp, tcpServer = Some tcp\<rparr>" tcp udp] assms(6,7)
    by simp
  with s1 s2 s4 show "sockets (stub_Close N \<lparr>Addr = addr, udpServer = Some udp, tcpServer = Some tcp\<rparr> n4) = sockets n"
    by auto
qed

text \<open>
  The test stub leaks no socket: whichever step of starting it fails, and when it starts, after the
  test's cleanup, exactly the sockets that were open before are open, given that the servers shut down;
  and a stub that starts answers on two sockets of one address, both with the given handler.
\<close>

theorem StartDNSStub_no_leak:
  assumes "net_contract sockets N" and "\<forall>srv n. fst (Shutdown N srv n) = None" and "t_cleanups t = []"
    and "StartDNSStub N handler t = (res, t')"
  shows "sockets (run_cleanups N t') = sockets (t_net t) \<and>
    (\<forall>s. res = Ready s \<longrightarrow> (\<exists>port udp tcp. udp \<noteq> tcp \<and> sockets (t_net t') = {udp, tcp} \<union> sockets (t_net t) \<and>
       s = \<lparr>Addr = ''127.0.0.1:'' @ Itoa port, udpServer = Some \<lparr>Socket = udp, ServerHandler = handler\<rparr>,
            tcpServer = Some \<lparr>Socket = tcp, ServerHandler = handler\<rparr>\<rparr>))"
proof (cases "ListenPacket N ''udp'' ''127.0.0.1:0'' (t_net t)")
  case udp: (Pair r1 n1)
  note D = net_contractD [OF assms(1)]
  show ?thesis
  proof (cases r1)
    case (Inl e)
    have "sockets n1 = sockets (t_net t)" by (rule D(1) [OF udp [unfolded Inl]])
    moreover have "res = Fatal ''listen udp'' e" "t' = t\<lparr>t_net := n1\<rparr>"
      using assms(4) by (simp_all add: StartDNSStub_def udp Inl)
    ultimately show ?thesis by (simp add: run_cleanups_def assms(3))
  next
    case (Inr a)
    then obtain u port where r1: "r1 = Inr (u, port)" by (cases a) auto
    let ?addr = "''127.0.0.1:'' @ Itoa port"
    have s1: "u \<notin> sockets (t_net t) \<and> sockets n1 = insert u (sockets (t_net t))" by (rule D(2) [OF udp [unfolded r1]])
    obtain r2 n2 where tcp: "NetListen N ''tcp'' ?addr n1 = (r2, n2)" by fastforce
    show ?thesis
    proof (cases r2)
      case (Inl e)
      have "sockets n2 = sockets n1" by (rule D(3) [OF tcp [unfolded Inl]])
      then have "sockets (snd (CloseSocket N u n2)) = sockets (t_net t)" using D(5) [of u n2] s1 by simp
      moreover have "res = Fatal ''listen tcp'' e" "t' = t\<lparr>t_net := snd (CloseSocket N u n2)\<rparr>"
        using assms(4) tcp by (simp_all add: StartDNSStub_def udp r1 Inl)
      ultimately show ?thesis by (simp add: run_cleanups_def assms(3))
    next
      case (Inr c)
      let ?udp = "\<lparr>Socket = u, ServerHandler = handler\<rparr>" and ?tcp = "\<lparr>Socket = c, ServerHandler = handler\<rparr>"
      let ?s = "\<lparr>Addr = ?addr, udpServer = Some ?udp, tcpServer = Some ?tcp\<rparr>"
      obtain r4 n4 where wait: "waitForTCP N ?addr (Activate N ?tcp (Activate N ?udp n2)) = (r4, n4)" by fastforce
      note sock = opened_sockets [OF assms(1,2) udp [unfolded r1] tcp [unfolded Inr] wait, simplified]
      have "res = (case r4 of Some e \<Rightarrow> Fatal ''wait for dns stub'' e | None \<Rightarrow> Ready ?s)"
        "t' = (case r4 of Some e \<Rightarrow> t\<lparr>t_net := stub_Close N ?s n4\<rparr> | None \<Rightarrow> t\<lparr>t_net := n4, t_cleanups := [?s]\<rparr>)"
        using assms(3,4) tcp wait by (auto simp: StartDNSStub_def Let_def udp r1 Inr split: option.splits)
      moreover have "\<exists>port' udp tcp. udp \<noteq> tcp \<and> sockets n4 = {udp, tcp} \<union> sockets (t_net t) \<and>
         ?s = \<lparr>Addr = ''127.0.0.1:'' @ Itoa port', udpServer = Some \<lparr>Socket = udp, ServerHandler = handler\<rparr>,
            tcpServer = Some \<lparr>Socket = tcp, ServerHandler = handler\<rparr>\<rparr>"
        using sock(1) by blast
      ultimately show ?thesis using sock(2) by (cases r4) (simp_all add: run_cleanups_def assms(3))
    qed
  qed
qed

text \<open>A machine for concrete runs: the open sockets, numbered upwards; every listener is reached at the first attempt.\<close>

definition sample_net :: "(nat \<times> nat list) netlib" where
  "sample_net = \<lparr>ListenPacket = (\<lambda>net a (k, ss). (Inr (k, 40000), (Suc k, k # ss))),
     NetListen = (\<lambda>net a (k, ss). (Inr k, (Suc k, k # ss))),
     CloseSocket = (\<lambda>s (k, ss). (None, (k, removeAll s ss))), Activate = (\<lambda>srv n. n),
     Shutdown = (\<lambda>srv (k, ss). (None, (k, removeAll (Socket srv) ss))),
     DialTimeout = (\<lambda>net a n. (None, n))\<rparr>"

definition open_sockets :: "nat \<times> nat list \<Rightarrow> nat set" where
  "open_sockets n = {s \<in> set (snd n). s < fst n}"

lemma sample_net_contract: "net_contract open_sockets sample_net"
  by (auto simp: net_contract_def sample_net_def open_sockets_def less_Suc_eq)

lemma sample_net_simps [simp]:
  "ListenPacket sample_net net a (k, ss) = (Inr (k, 40000), (Suc k, k # ss))"
  "NetListen sample_net net a (k, ss) = (Inr k, (Suc k, k # ss))"
  "Activate sample_net srv n = n" "DialTimeout sample_net net a n = (None, n)"
  by (simp_all add: sample_net_def)

theorem StartDNSStub_no_leak_witness:
  "\<exists>s t'. StartDNSStub sample_net (FixedHandler sample_lib Map.empty) \<lparr>t_net = (0, []), t_cleanups = []\<rparr> = (Ready s, t') \<and>
     Addr s = ''127.0.0.1:'' @ Itoa 40000 \<and> open_sockets (run_cleanups sample_net t') = {}"
proof -
  let ?t = "\<lparr>t_net = (0, []), t_cleanups = []\<rparr>" and ?h = "FixedHandler sample_lib Map.empty"
  have up: "waitForTCP sample_net a n = (None, n)" for a n by (simp add: waitForTCP_def eval_nat_numeral)
  obtain s t' where st: "StartDNSStub sample_net ?h ?t = (Ready s, t')" "Addr s = ''127.0.0.1:'' @ Itoa 40000"
    by (simp add: StartDNSStub_def up Let_def)
  have "\<forall>srv n. fst (Shutdown sample_net srv n) = None" by (simp add: sample_net_def split_beta)
  from StartDNSStub_no_leak [OF sample_net_contract this _ st(1)]
  show ?thesis using st by (auto simp: open_sockets_def)
qed

text \<open>
  The stub as an upstream server. The transport is not the program's: it is an idealised one that loses nothing, an
  instance of the client the handler is given.
\<close>

definition stub_exchanger :: "dnslib \<Rightarrow> (string \<rightharpoonup> StubResponse) \<Rightarrow> 'n exchanger" where
  "stub_exchanger L responses c r server n = (Inr (Some (FixedHandler L responses (Some r))), n)"

lemma FixedHandler_reply:
  assumes "dns_contract L" "Questions r = q # qs"
  shows "MsgId (FixedHandler L responses (Some r)) = MsgId r" "Questions (FixedHandler L responses (Some r)) = [q]"
    "\<not> Truncated (FixedHandler L responses (Some r))"
  using assms(2) by (auto simp: FixedHandler_def Let_def contract_simps [OF assms(1)] split: option.splits)

lemma stub_exchanger_ok:
  assumes "dns_contract L"
  shows "never_nil (stub_exchanger L responses :: 'n exchanger)"
    "question_echoed (stub_exchanger L responses :: 'n exchanger)"
  by (simp add: never_nil_def stub_exchanger_def,
      auto simp: question_echoed_def replies_satisfy_def stub_exchanger_def neq_Nil_conv FixedHandler_reply [OF assms])

text \<open>
  C31: The program in front of the stub: a query for a name that is neither local nor blocked nor cached
  is answered with exactly the records and the code the stub holds for it, in whatever case and
  with or without final dot the stub's table writes the name, and with a name error when it holds none.
\<close>

theorem resolve_through_stub:
  assumes "dns_contract (dlib E)" and "Exchange E = stub_exchanger (dlib E) responses"
    and "upstreamServers (forwarder h) \<noteq> []" and "Questions r = q # qs"
    and "records_Get (w_records w) (qName q) = None" and "\<not> ShouldBlock (w_filter w) (qName q)"
    and "w_cache w (request_key remote q) = None"
  shows "\<exists>w' m. HandleDNSRequest E h remote (Some r) w = Some (Return w') \<and>
    w_sent w' = w_sent w @ [(remote, written E remote m)] \<and> MsgId m = MsgId r \<and> Questions m = [q] \<and>
    (case responses (Key (qName q) (Qtype q)) of
       Some resp \<Rightarrow> Answer m = Answers resp \<and> Rcode m = RespRcode resp
     | None \<Rightarrow> Answer m = [] \<and> Rcode m = RcodeNameError)"
proof -
  let ?m = "FixedHandler (dlib E) responses (Some r)"
  let ?w = "store_and_send E remote (request_key remote q) ?m (w\<lparr>w_net := w_net w\<rparr>)"
  obtain s ss where s: "upstreamServers (forwarder h) = s # ss" using assms(3) by (cases "upstreamServers (forwarder h)") auto
  have "Forward (Exchange E) (forwarder h) r (w_net w) = ((Some ?m, None), w_net w)"
    using FixedHandler_reply(3) [OF assms(1,4), of responses] by (simp add: Forward_def s exchange_def assms(2) stub_exchanger_def)
  moreover have "no_local (w_records w) (qName q)" using assms(5) by (simp add: no_local_def)
  moreover have "cache_Get (w_heap w) (w_cache w) (Now E (w_net w)) (request_key remote q) = Return None"
    using assms(7) by (simp add: cache_Get_def)
  ultimately have "HandleDNSRequest E h remote (Some r) w = Some (Return ?w)"
    using serves_sound [OF serves.forwarded [OF assms(4) _ assms(6)]] by blast
  moreover have "case responses (Key (qName q) (Qtype q)) of
       Some resp \<Rightarrow> Answer ?m = Answers resp \<and> Rcode ?m = RespRcode resp
     | None \<Rightarrow> Answer ?m = [] \<and> Rcode ?m = RcodeNameError"
    using assms(4) by (auto simp: FixedHandler_def Let_def contract_simps [OF assms(1)] split: option.splits)
  ultimately show ?thesis
    using FixedHandler_reply(1,2) [OF assms(1,4), of responses] by (intro exI [of _ ?w] exI [of _ ?m]) simp
qed

theorem resolve_through_stub_witness:
  "\<exists>w' m. HandleDNSRequest \<lparr>dlib = sample_lib, Exchange = stub_exchanger sample_lib
         [Key ''WWW.example'' TypeA \<mapsto> \<lparr>Answers = [ARecord ''www.example'' ''10.0.0.5''], RespRcode = 0\<rparr>],
         Now = (\<lambda>n. int n)\<rparr> sample_handler sample_client
       (Some (sample_request ''www.example.'' TypeA)) (sample_world Map.empty None) = Some (Return w') \<and>
     w_sent w' = [(sample_client, m)] \<and> MsgId m = 42"
proof -
  let ?R = "[Key ''WWW.example'' TypeA \<mapsto> \<lparr>Answers = [ARecord ''www.example'' ''10.0.0.5''], RespRcode = 0\<rparr>]"
  let ?E = "\<lparr>dlib = sample_lib, Exchange = stub_exchanger sample_lib ?R, Now = (\<lambda>n. int n)\<rparr>"
  have "upstreamServers (forwarder sample_handler) \<noteq> []" by (simp add: sample_handler_def forward_New_def)
  from resolve_through_stub [of ?E ?R sample_handler "sample_request ''www.example.'' TypeA"
      "\<lparr>qName = ''www.example.'', Qtype = TypeA, Qclass = ClassINET\<rparr>" "[]" "sample_world Map.empty None" sample_client, OF _ _ this]
  show ?thesis by (auto simp: sample_lib_contract records_Get_empty)
qed

end
