(* ===== verification/Spec2Isabelle.thy ===== *)
theory Spec2Isabelle
  imports ValueCache FilterRaces DnsStub
begin

text \<open>
  \<^bold>\<open>resolvit: a verified model of a DNS forwarder with local records and block lists\<close>

  The program answers DNS queries from a file of local records, refuses the names of block lists,
  caches replies and forwards everything else to upstream servers. This development models its Go
  sources under \<^verbatim>\<open>src/\<close> as executable definitions, one theory per component, and proves what makes the
  components correct alone and together. Errors are values, a panic is \<open>Panic\<close>, and a call that
  never returns is \<open>None\<close>.

  \<^bold>\<open>The language and its library.\<close>
  \<^item> \<open>Prelude\<close>: integer types, outcomes, generic list facts.
  \<^item> \<open>GoStrings\<close>, \<open>GoNet\<close>, \<open>GoBufio\<close>, \<open>GoPath\<close>, \<open>GoTime\<close>, \<open>GoEncoding\<close>, \<open>GoDuration\<close>: what the program uses of \<^verbatim>\<open>strings\<close>,
    \<^verbatim>\<open>strconv\<close>, \<^verbatim>\<open>net\<close>, \<^verbatim>\<open>bufio\<close>, \<^verbatim>\<open>path/filepath\<close>, \<^verbatim>\<open>time\<close>, \<^verbatim>\<open>encoding/hex\<close>, \<^verbatim>\<open>encoding/base64\<close> and \<^verbatim>\<open>crypto/sha256\<close>. Strings are
    lists of bytes. Case mapping is the ASCII one. \<open>GoDuration\<close> is \<^verbatim>\<open>time.ParseDuration\<close> with its fractions rounded to 53 bits as in
    floating point.
  \<^item> \<open>Dns\<close>: the messages of \<^verbatim>\<open>github.com/miekg/dns\<close>. Its functions are the fields of the record \<open>dnslib\<close>, an argument of
    every definition that calls them, and what the program relies on is the predicate \<open>dns_contract\<close>; \<open>sample_lib\<close> is
    an instance of it.

  \<^bold>\<open>The components.\<close>
  \<^item> \<open>Records\<close> (\<^verbatim>\<open>pkg/records\<close>): the store as a map, \<open>records_Get\<close> with its wildcard loop, \<open>records_Add\<close>,
    \<open>LoadFromFile\<close>. Lookup by longest wildcard suffix, round trips, the invariant \<open>store_ok\<close>, safety of
    accepted paths.
  \<^item> \<open>DnsCache\<close> (\<^verbatim>\<open>pkg/dnscache\<close>): the cache holds pointers into a heap of messages. The locale \<open>ttl_cache\<close> states
    the laws of a cache with expiry and is interpreted by the model; durations are 64-bit words and do not overflow.
  \<^item> \<open>Forward\<close> (\<^verbatim>\<open>pkg/forward\<close>): servers are asked in order, UDP first and TCP after truncation. The DNS client is
    the argument \<open>exchanger\<close>, which threads the state of the outside world.
  \<^item> \<open>DomainSet\<close>, \<open>Parser\<close>, \<open>DnsFilter\<close>, \<open>Loader\<close>, \<open>FilterRefresh\<close>, \<open>Sources\<close> (\<^verbatim>\<open>pkg/filtering\<close>): domain sets against the
    suffix relation (locale \<open>matcher\<close>), the list parser and its error limit, the decision and the log of blocked
    queries, downloading and caching of lists, their refresh by the filter and by the manager, and the selection
    of the sources from catalog, configuration and custom entries. Files and HTTP are the record \<open>osenv\<close>.
  \<^item> \<open>Handler\<close>, \<open>CnameChain\<close>, \<open>Requests\<close>, \<open>ValueCache\<close>, \<open>Interleaving\<close>, \<open>Goroutines\<close> (\<^verbatim>\<open>pkg/handler\<close>): \<open>Handler\<close> has every method of the handler, with
    truncation; \<open>CnameChain\<close> characterises the loop over local CNAME records (locale \<open>chase\<close>): its result,
    and that it returns exactly when no target is met twice; \<open>Requests\<close> shows that the handler implements the
    relation \<open>serves\<close> and derives replies, order of the sources of an answer, termination, the one cause of a panic and the
    behaviour of the cache; \<open>ValueCache\<close> refines an abstract handler that stores message values;
    \<open>Interleaving\<close> splits the end of a request into caching and writing and shows that a request served in
    between is not affected; \<open>Goroutines\<close> is the whole handler in small steps, one access to shared state each, and
    shows that a goroutine that runs alone does exactly what the handler in one piece does, and ends.
  \<^item> \<open>Config\<close>, \<open>Logger\<close> (\<^verbatim>\<open>pkg/config\<close>, \<^verbatim>\<open>pkg/logger\<close>): loading and validating the configuration and the settings of the log. Reading and
    decoding TOML is the record \<open>cfgenv\<close>. Log levels are ordered by severity.
  \<^item> \<open>Service\<close> (\<^verbatim>\<open>pkg/server\<close>, \<^verbatim>\<open>main.go\<close>): start-up, signals, and the running program as a transition system. The locale
    \<open>invariant_system\<close> states what an invariant gives; it is interpreted for safety (with the exact condition under which the
    program can crash) and for the configuration (listeners, upstream servers, every setting of the filter, and the refresh
    interval from the text in the file to the loop).
  \<^item> \<open>Concurrency\<close>, \<open>FilterRaces\<close> (\<^verbatim>\<open>pkg/handler\<close>, \<^verbatim>\<open>pkg/filtering\<close>, \<^verbatim>\<open>main.go\<close>): any number of requests in flight, the signal loop and the refresh loop, interleaved
    in small steps. A third interpretation of \<open>invariant_system\<close> shows which states of an interleaving can crash and that what was
    sent is exactly one fitting reply for every request that is done; a race between a request and a reload is exhibited.
    A fourth shows that a name that is blocked in every state of a run is refused whatever interleaves; the two
    stores of a refresh have a state between them that refuses a name both pairs of lists allow.
  \<^item> \<open>DnsStub\<close> (\<^verbatim>\<open>internal/testutil\<close>): the fixed DNS server of the tests, how it starts and is closed without leaking
    sockets, and the program in front of it.
  \<^item> This theory: what spans all of them, from the configuration and the files to the replies of the started
    program.

  \<^bold>\<open>Loops and bounds.\<close> No definition uses fuel. Loops over data are structural or have a termination
  proof; the loop over CNAME records, which can run for ever, is a \<^theory_text>\<open>partial_function\<close> into \<open>option\<close>. The wait loop
  of the test stub has its 20 attempts.

  \<^bold>\<open>Parameters.\<close> The DNS library (\<open>dns_contract\<close>, \<open>header_fixed\<close>), the DNS client (\<open>never_nil\<close>: it gives a message or an error; \<open>id_checked\<close>: the message has the ID of the request), the clock
  \<open>Now\<close>, files and HTTP (\<open>osenv\<close>, \<open>files_ok\<close>), viper and mapstructure (\<open>cfgenv\<close>), the sockets of the test stub (\<open>netlib\<close>, \<open>net_contract\<close>), and
  the table of service names. \<open>net_ok\<close> and \<open>env_ok\<close> collect the hypotheses on an environment.
  That upstream replies repeat the question (\<open>question_echoed\<close>) is documented nowhere and checked by nobody, so the results on the running program do not rest
  on it: without it the program can crash, on a cached reply without question, and they say that this is the only way.
  Lemmas beside them note that it cannot crash where the servers do repeat it. Every hypothesis on them is shown to hold of a concrete instance.

  \<^bold>\<open>Not modelled.\<close> The text that \<^verbatim>\<open>slog\<close> writes (log lines the code decides about are values), the packing of messages
  and the sockets of the server (a message counts as sent when it is handed to \<^verbatim>\<open>WriteMsg\<close>, whose error the code only logs), and the memory model of Go: the steps of \<open>Concurrency\<close> are sequentially consistent, so that the
  unsynchronised access of one request to a message another one is truncating gives some state of that message
  and is not judged as a data race; loading the records and downloading the lists are one step each. Case
  mapping outside ASCII is left out.
\<close>

section \<open>From the configuration to the replies\<close>

lemma run_start_cases:
  assumes "run_start L S V open_log open_append n = Started p"
  obtains w1 ticking where
    "loadRecords S (ResolveFrom (cRecords (p_cfg p)))
       \<lparr>w_records = Map.empty, w_heap = [], w_cache = Map.empty, w_filter = None, w_net = n, w_sent = []\<rparr> = (None, w1)"
    "start_filter L S open_append (p_cfg p) n = (w_filter (p_world p), ticking, w_net (p_world p))"
    "w_records (p_world p) = w_records w1" "w_sent (p_world p) = []"
proof -
  let ?w0 = "\<lparr>w_records = Map.empty, w_heap = [], w_cache = Map.empty, w_filter = None, w_net = n, w_sent = []\<rparr>"
  obtain cfg w1 flt ticking n' srv hdl cache where
    w1: "loadRecords S (ResolveFrom (cRecords cfg)) ?w0 = (None, w1)"
    and flt: "start_filter L S open_append cfg (w_net w1) = (flt, ticking, n')"
    and p: "p = \<lparr>p_cfg = cfg, p_server = srv, p_handler = hdl, p_ticker = ticking,
      p_world = w1\<lparr>w_cache := cache, w_filter := flt, w_net := n'\<rparr>\<rparr>"
    using assms by (auto simp: run_start_def Let_def split: sum.splits option.splits prod.splits)
  show thesis
    by (rule that [of w1 ticking]) (use w1 flt loadRecords_frame [OF w1] in \<open>simp_all add: p\<close>)
qed

lemma run_start_filter:
  assumes "run_start L S V open_log open_append n = Started p" and "fEnabled (cFiltering (p_cfg p))"
  shows "w_filter (p_world p) = Some (fst (Filter_LoadOnce L S (NewFilter open_append (filter_options (p_cfg p))) n))"
proof -
  from run_start_cases [OF assms(1)] obtain ticking where
    "start_filter L S open_append (p_cfg p) n = (w_filter (p_world p), ticking, w_net (p_world p))" by blast
  then show ?thesis
    using assms(2) by (auto simp: start_filter_def Filter_Start_def NewFilter_def filter_options_def Let_def
        split: prod.splits if_splits)
qed

lemma run_start_records:
  assumes "run_start L S V open_log open_append n = Started p" and "ResolveFrom (cRecords (p_cfg p)) \<noteq> []"
  shows "\<exists>warnings. LoadFromFile (\<lambda>path. OpenFile S path n) Map.empty (ResolveFrom (cRecords (p_cfg p))) =
    (w_records (p_world p), warnings, None)"
proof -
  let ?w0 = "\<lparr>w_records = Map.empty, w_heap = [], w_cache = Map.empty, w_filter = None, w_net = n, w_sent = []\<rparr>"
  obtain w1 where "loadRecords S (ResolveFrom (cRecords (p_cfg p))) ?w0 = (None, w1)" "w_records (p_world p) = w_records w1"
    using run_start_cases [OF assms(1)] by blast
  then show ?thesis using assms(2) by (auto simp: loadRecords_def split: prod.splits)
qed

lemma run_start_sent: "run_start L S V open_log open_append n = Started p \<Longrightarrow> w_sent (p_world p) = []"
  by (rule run_start_cases)

lemma NewFilter_options:
  "enabled (NewFilter open_append (filter_options cfg)) = fEnabled (cFiltering cfg)"
  "blockSubdomains (NewFilter open_append (filter_options cfg)) = fBlockSubdomains (cFiltering cfg)"
  "sources (NewFilter open_append (filter_options cfg)) = BuildSources Catalog (fLists (cFiltering cfg)) (CustomList (fCustom (cFiltering cfg)))"
  "cacheDir (NewFilter open_append (filter_options cfg)) = fCacheDir (cFiltering cfg)"
  "allowlistPath (NewFilter open_append (filter_options cfg)) = AllowPath (fAllowlist (cFiltering cfg))"
  "errorLimit (NewFilter open_append (filter_options cfg)) = BlocklistErrorLimit (cLogging cfg)"
  by (simp_all add: NewFilter_def filter_options_def Let_def)

text \<open>
  A start for concrete runs: a file with one address record, and one block list on the web that is
  configured by its URL.
\<close>

definition demo_records :: "(string \<times> Record) list" where
  "demo_records = [(''web'', \<lparr>Typ = records_A, Content = ''10.0.0.1''\<rparr>)]"

definition demo_files :: "string \<rightharpoonup> string" where
  "demo_files = [''r.txt'' \<mapsto> unlines (map render_entry demo_records)]"

definition demo_os :: "((string \<rightharpoonup> string) \<times> bool) osenv" where
  "demo_os = sample_os [''http://lists/ads'' \<mapsto> rd_data sample_list]"

definition demo_list :: ListConfig where
  "demo_list = \<lparr>cfgEnabled = True, cfgURL = ''http://lists/ads'', cfgUsername = [], cfgPassword = [], cfgToken = [],
     cfgHeader = [], cfgScheme = []\<rparr>"

definition demo_config :: "(string \<times> ListConfig) list \<Rightarrow> string list \<Rightarrow> Config" where
  "demo_config ls ups = sample_config\<lparr>cUpstream := \<lparr>Servers = ups\<rparr>,
     cLogging := \<lparr>Level = ''INFO'', LogFile = ''stdout'', BlocklistErrorLimit = 0\<rparr>, cRecords := \<lparr>ResolveFrom = ''r.txt''\<rparr>,
     cFiltering := \<lparr>fEnabled = True, fCacheDir = ''/c'', fUpdateInterval = 0, fBlockedLog = [], fBlockSubdomains = False,
       fAllowlist = \<lparr>AllowPath = []\<rparr>, fCustom = \<lparr>CustomList = []\<rparr>, fLists = ls\<rparr>\<rparr>"

lemma demo_config_simps [simp]:
  "cFiltering (demo_config ls ups) = \<lparr>fEnabled = True, fCacheDir = ''/c'', fUpdateInterval = 0, fBlockedLog = [],
     fBlockSubdomains = False, fAllowlist = \<lparr>AllowPath = []\<rparr>, fCustom = \<lparr>CustomList = []\<rparr>, fLists = ls\<rparr>"
  "cRecords (demo_config ls ups) = \<lparr>ResolveFrom = ''r.txt''\<rparr>" "cUpstream (demo_config ls ups) = \<lparr>Servers = ups\<rparr>"
  "cLogging (demo_config ls ups) = \<lparr>Level = ''INFO'', LogFile = ''stdout'', BlocklistErrorLimit = 0\<rparr>"
  "cServer (demo_config ls ups) = cServer sample_config"
  "(demo_config ls ups)\<lparr>cUpstream := \<lparr>Servers = ups'\<rparr>\<rparr> = demo_config ls ups'"
  "(demo_config ls ups)\<lparr>cFiltering := \<lparr>fEnabled = True, fCacheDir = ''/c'', fUpdateInterval = 0, fBlockedLog = [],
     fBlockSubdomains = False, fAllowlist = \<lparr>AllowPath = []\<rparr>, fCustom = \<lparr>CustomList = []\<rparr>, fLists = ls'\<rparr>\<rparr> = demo_config ls' ups"
  by (simp_all add: demo_config_def)

definition demo_cfgenv :: "unit cfgenv" where
  "demo_cfgenv = \<lparr>Getenv = (\<lambda>k. []),
     ReadInConfig = (\<lambda>p d. Inr \<lparr>Unmarshal = Inr (demo_config [] [''9.9.9.9'']), GetStringMap = [(''ads'', Table ())],
       GetUpdateInterval = []\<rparr>),
     Decode = (\<lambda>t. Inr demo_list),
     Services = (\<lambda>s. Inl ''unknown port''), Stat = (\<lambda>p. None)\<rparr>"

lemma demo_setup: "config_Setup demo_cfgenv = Inr (demo_config [(''ads'', demo_list)] [''9.9.9.9:53''])"
proof -
  have "ParseUpstream ''9.9.9.9'' = ''9.9.9.9:53''" "ValidateLogLevel ''INFO'' = None" "ToLower ''ads'' = ''ads''"
    by code_simp+
  moreover have "Listen (cServer sample_config) = ''127.0.0.1:5300''" by (simp add: sample_config_def)
  ultimately show ?thesis
    by (simp add: config_Setup_def loadConfig_def demo_cfgenv_def parseListConfigs_def parseDuration_def ignored_keys_def
        map_put_def validateConfig_def sample_addresses)
qed

lemma demo_records_ok: "list_all entry_ok demo_records" "sanitizeRecordsPath ''r.txt'' = Inr ''r.txt''"
  "OpenFile demo_os ''r.txt'' (demo_files, True) = Inr \<lparr>rd_data = unlines (map render_entry demo_records), rd_err = None\<rparr>"
proof -
  have "ParseIP ''10.0.0.1'' \<noteq> None" by (simp add: ParseIP_eval)
  then show "list_all entry_ok demo_records"
    by (simp add: demo_records_def token_def is_space_def record_ok_def records_CNAME_def records_A_def ToLower_def lowerc_def
        is_upper_def line_fits_def MaxScanTokenSize_def)
qed (code_simp, simp add: demo_os_def sample_os_def demo_files_def bytes_reader_def)

lemma demo_start:
  obtains p where "run_start sample_lib demo_os demo_cfgenv (\<lambda>p. None) (\<lambda>p. Inr []) (demo_files, True) = Started p"
    "p_cfg p = demo_config [(''ads'', demo_list)] [''9.9.9.9:53'']" "w_records (p_world p) = [''web.'' \<mapsto> \<lparr>Typ = records_A, Content = ''10.0.0.1''\<rparr>]"
proof -
  have "normalizeName ''web'' = ''web.''" by code_simp
  then have "LoadFromFile (\<lambda>p. OpenFile demo_os p (demo_files, True)) Map.empty ''r.txt'' =
      ([''web.'' \<mapsto> \<lparr>Typ = records_A, Content = ''10.0.0.1''\<rparr>], [], None)"
    using LoadFromFile_render [of "''r.txt''" _ "\<lambda>p. OpenFile demo_os p (demo_files, True)", OF demo_records_ok(2,3,1), of Map.empty]
    by (simp add: demo_records_def)
  moreover obtain flt ticking n' where "start_filter sample_lib demo_os (\<lambda>p. Inr [])
      (demo_config [(''ads'', demo_list)] [''9.9.9.9:53'']) (demo_files, True) = (flt, ticking, n')"
    by (metis prod.exhaust)
  ultimately show thesis
    using that by (auto simp: run_start_def demo_setup logger_Setup_def loadRecords_def Let_def server_New_def split: prod.splits)
qed

text \<open>
  C6: From the block lists to the client: when the program has started with filtering on, every name
  that the list of one of its sources matched at the start, that the allow list does not match
  and that has no local record, is answered with a name error, and no upstream server is asked.
\<close>

theorem started_program_blocks:
  assumes "run_start (dlib E) S V open_log open_append n = Started p" and "fEnabled (cFiltering (p_cfg p))"
    and "dns_contract (dlib E)" and "Questions r = q # qs" and "records_Get (w_records (p_world p)) (qName q) = None"
    and "f = NewFilter open_append (filter_options (p_cfg p))"
    and "(s, Inr d) \<in> set (refresh_results (dlib E) S f n)"
    and "Matches (Some d) (qName q) (fBlockSubdomains (cFiltering (p_cfg p)))"
    and "\<not> Matches (Some (refresh_allowlist (dlib E) S f n)) (qName q) (fBlockSubdomains (cFiltering (p_cfg p)))"
  shows "\<exists>w' m. HandleDNSRequest E (p_handler p) remote (Some r) (p_world p) = Some (Return w') \<and>
    w_sent w' = [(remote, m)] \<and> MsgId m = MsgId r \<and> Rcode m = RcodeNameError \<and> Answer m = [] \<and>
    w_net w' = w_net (p_world p)"
proof -
  have "ShouldBlock (w_filter (p_world p)) (qName q)"
    using assms(2,7-9) ShouldBlock_LoadOnce [of f "dlib E" S n "qName q"]
    unfolding run_start_filter [OF assms(1,2)] assms(6) NewFilter_options by blast
  from HandleDNSRequest_blocked [OF assms(3,4,5) this] show ?thesis
    using run_start_sent [OF assms(1)] by (auto simp: contract_simps [OF assms(3)])
qed

text \<open>An environment for the concrete run, whose upstream servers do not answer.\<close>

definition demo_env :: "((string \<rightharpoonup> string) \<times> bool) env" where
  "demo_env = \<lparr>dlib = sample_lib, Exchange = (\<lambda>c r server n. (Inl ''no reply'', n)), Now = (\<lambda>n. 1700000000000000000)\<rparr>"

lemma demo_env_simps [simp]: "dlib demo_env = sample_lib"
  by (simp add: demo_env_def)

lemma demo_refresh:
  obtains d where "Matches (Some d) ''ads.example.'' False"
    "refresh_results sample_lib demo_os (NewFilter open_append (filter_options (demo_config [(''ads'', demo_list)] ups)))
       (demo_files, True) = [(sample_source, Inr d)]"
proof -
  let ?f = "NewFilter open_append (filter_options (demo_config [(''ads'', demo_list)] ups))"
  obtain d where d: "Matches (Some d) ''ads.example'' False"
    "refresh_results sample_lib (sample_os [''http://lists/ads'' \<mapsto> rd_data sample_list]) refresh_filter (demo_files, True) =
       [(sample_source, Inr d)]"
    by (rule sample_load_online)
  have "normalizeLookupName ''ads.example.'' = normalizeLookupName ''ads.example''" by code_simp
  with d(1) have "Matches (Some d) ''ads.example.'' False" by (simp add: Matches_iff)
  moreover have "sources ?f = [sample_source]"
    by (simp add: NewFilter_options BuildSources_def config_source_def demo_list_def config_location_def sample_source_def)
  then have "refresh_results sample_lib demo_os ?f (demo_files, True) = [(sample_source, Inr d)]"
    using d(2) by (simp add: refresh_results_def NewFilter_options demo_os_def)
  ultimately show thesis by (rule that)
qed

theorem started_program_blocks_witness:
  "\<exists>p w' m. run_start sample_lib demo_os demo_cfgenv (\<lambda>p. None) (\<lambda>p. Inr []) (demo_files, True) = Started p \<and>
     HandleDNSRequest demo_env (p_handler p) sample_client (Some (sample_request ''ads.example.'' TypeA)) (p_world p) =
       Some (Return w') \<and>
     w_sent w' = [(sample_client, m)] \<and> Rcode m = RcodeNameError"
proof -
  let ?q = "\<lparr>qName = ''ads.example.'', Qtype = TypeA, Qclass = ClassINET\<rparr>"
  obtain p where p: "run_start sample_lib demo_os demo_cfgenv (\<lambda>p. None) (\<lambda>p. Inr []) (demo_files, True) = Started p"
    "p_cfg p = demo_config [(''ads'', demo_list)] [''9.9.9.9:53'']" "w_records (p_world p) = [''web.'' \<mapsto> \<lparr>Typ = records_A, Content = ''10.0.0.1''\<rparr>]"
    by (rule demo_start)
  obtain d where d: "Matches (Some d) ''ads.example.'' False"
    "refresh_results sample_lib demo_os (NewFilter (\<lambda>p. Inr []) (filter_options (p_cfg p))) (demo_files, True) =
       [(sample_source, Inr d)]"
    unfolding p(2) by (rule demo_refresh)
  have none: "records_Get (w_records (p_world p)) ''ads.example.'' = None" unfolding p(3) by code_simp
  have "\<not> Matches (Some (refresh_allowlist sample_lib demo_os (NewFilter (\<lambda>p. Inr []) (filter_options (p_cfg p)))
      (demo_files, True))) ''ads.example.'' False"
    by (simp add: refresh_allowlist_def LoadAllowlist_def NewFilter_options p(2) domains.matches_empty)
  then show ?thesis
    using started_program_blocks [of demo_env demo_os demo_cfgenv _ "\<lambda>p. Inr []" _ p "sample_request ''ads.example.'' TypeA"
        ?q "[]" _ sample_source d sample_client] p(1,2) d none
    by (fastforce simp: sample_lib_contract)
qed

text \<open>
  C7: From the records file to the client: when the program has started with a file of records, a
  query for the address of a name whose last entry in the file is an address is answered with that
  address, whatever the spelling of the name, the block lists and the upstream servers.
\<close>

theorem started_program_answers:
  assumes "run_start (dlib E) S V open_log open_append n = Started p" and "dns_contract (dlib E)"
    and "sanitizeRecordsPath (ResolveFrom (cRecords (p_cfg p))) = Inr path"
    and "OpenFile S path n = Inr \<lparr>rd_data = unlines (map render_entry es), rd_err = None\<rparr>" and "list_all entry_ok es"
    and "Questions r = q # qs" and "Qtype q = TypeA" and "normalizeName (qName q) \<noteq> []"
    and "map_of (rev (map (\<lambda>(nm, rec). (normalizeName nm, rec)) es)) (normalizeName (qName q)) =
      Some \<lparr>Typ = records_A, Content = c\<rparr>"
  shows "\<exists>w' m. HandleDNSRequest E (p_handler p) remote (Some r) (p_world p) = Some (Return w') \<and>
    w_sent w' = [(remote, written E remote m)] \<and> MsgId m = MsgId r \<and> Rcode m = 0 \<and>
    Answer m = [mk_A (qName q) c] \<and> w_net w' = w_net (p_world p)"
proof -
  have path: "ResolveFrom (cRecords (p_cfg p)) \<noteq> []" using assms(3) by (auto simp: sanitizeRecordsPath_def)
  have "w_records (p_world p) = map_of (rev (map (\<lambda>(nm, rec). (normalizeName nm, rec)) es))"
    using run_start_records [OF assms(1) path] LoadFromFile_render [OF assms(3) _ assms(5), of "\<lambda>path. OpenFile S path n" Map.empty] assms(4)
    by auto
  then have "records_Get (w_records (p_world p)) (qName q) = Some \<lparr>Typ = records_A, Content = c\<rparr>"
    using assms(8,9) by (intro records_Get_exact) simp_all
  from HandleDNSRequest_address [OF assms(6) this] show ?thesis
    using run_start_sent [OF assms(1)] handleA_reply [OF assms(2)] assms(7) by auto
qed

theorem started_program_answers_witness:
  "\<exists>p w' m. run_start sample_lib demo_os demo_cfgenv (\<lambda>p. None) (\<lambda>p. Inr []) (demo_files, True) = Started p \<and>
     HandleDNSRequest demo_env (p_handler p) sample_client (Some (sample_request ''Web.'' TypeA)) (p_world p) =
       Some (Return w') \<and>
     w_sent w' = [(sample_client, written demo_env sample_client m)] \<and> Answer m = [mk_A ''Web.'' ''10.0.0.1'']"
proof -
  let ?q = "\<lparr>qName = ''Web.'', Qtype = TypeA, Qclass = ClassINET\<rparr>"
  obtain p where p: "run_start sample_lib demo_os demo_cfgenv (\<lambda>p. None) (\<lambda>p. Inr []) (demo_files, True) = Started p"
    "p_cfg p = demo_config [(''ads'', demo_list)] [''9.9.9.9:53'']"
    by (rule demo_start)
  have "normalizeName ''Web.'' = ''web.''" "normalizeName ''web'' = ''web.''" by code_simp+
  then show ?thesis
    using started_program_answers [of demo_env demo_os demo_cfgenv "\<lambda>p. None" "\<lambda>p. Inr []" "(demo_files, True)" p "''r.txt''"
        demo_records "sample_request ''Web.'' TypeA" ?q "[]" "''10.0.0.1''" sample_client]
      p demo_records_ok sample_lib_contract
    by (auto simp: demo_records_def)
qed

end
